theory Spec2Isabelle
  imports Main "HOL-Library.Word"
begin

unbundle bit_operations_syntax

section \<open>Machine types\<close>

text \<open>
  The sources are C on an LP64 target: \<open>size_t\<close> and pointers are 64 bits wide (the
  allocator's own test fixes \<open>sizeof(block_header_t)\<close> at 24, which is 4 + 4 + 8 + 8).
  Fixed-width integers are words, so \<open>+\<close> and \<open>-\<close> wrap as the unsigned C arithmetic does.
  Addresses are natural numbers with \<open>NULL\<close> the address 0.
\<close>

type_synonym u8 = "8 word"
type_synonym u16 = "16 word"
type_synonym u32 = "32 word"
type_synonym u64 = "64 word"
type_synonym size_t = "64 word"
type_synonym addr = nat

definition NULL :: addr where
  "NULL = 0"

section \<open>Wire protocol (protocol.h, protocol.c)\<close>

definition ETHER_MAGIC :: u32 where
  "ETHER_MAGIC = 0xE7E7E7E7"

definition ETHER_PROTOCOL_VER :: u8 where
  "ETHER_PROTOCOL_VER = 1"

definition ETHER_MAX_PAYLOAD :: nat where
  "ETHER_MAX_PAYLOAD = 16 * 1024 * 1024"

definition ETHER_HEADER_SIZE :: nat where
  "ETHER_HEADER_SIZE = 24"

definition ETHER_CMD_PING :: u8 where "ETHER_CMD_PING = 0x01"
definition ETHER_CMD_PONG :: u8 where "ETHER_CMD_PONG = 0x02"
definition ETHER_CMD_ALLOC :: u8 where "ETHER_CMD_ALLOC = 0x10"
definition ETHER_CMD_FREE :: u8 where "ETHER_CMD_FREE = 0x11"
definition ETHER_CMD_REALLOC :: u8 where "ETHER_CMD_REALLOC = 0x12"
definition ETHER_CMD_WRITE :: u8 where "ETHER_CMD_WRITE = 0x20"
definition ETHER_CMD_READ :: u8 where "ETHER_CMD_READ = 0x21"
definition ETHER_CMD_OK :: u8 where "ETHER_CMD_OK = 0xF0"
definition ETHER_CMD_ERROR :: u8 where "ETHER_CMD_ERROR = 0xFF"

text \<open>\<open>ether_msg_header_t\<close>, a packed struct of 24 bytes.\<close>

record ether_msg_header =
  msg_magic :: u32
  msg_version :: u8
  msg_command :: u8
  msg_flags :: u16
  msg_handle :: u64
  msg_size :: u32
  msg_reserved :: u32

subsection \<open>Host byte order, \<open>htonl\<close> and \<open>ntohl\<close>\<close>

text \<open>
  The serializer stores 32-bit fields through a \<open>uint32_t *\<close> cast of the byte buffer
  after \<open>htonl\<close>. What lands in the buffer therefore depends on two things that cancel
  out: the byte order of the host's 32-bit store and the swap done by \<open>htonl\<close>. Both
  are modelled, with the host's byte order as a parameter.
\<close>

datatype endian = LittleEndian | BigEndian

definition bswap32 :: "u32 \<Rightarrow> u32" where
  "bswap32 x =
     push_bit 24 (ucast (ucast x :: u8)) OR
     push_bit 16 (ucast (ucast (drop_bit 8 x) :: u8)) OR
     push_bit 8 (ucast (ucast (drop_bit 16 x) :: u8)) OR
     ucast (ucast (drop_bit 24 x) :: u8)"

definition htonl :: "endian \<Rightarrow> u32 \<Rightarrow> u32" where
  "htonl e x = (case e of BigEndian \<Rightarrow> x | LittleEndian \<Rightarrow> bswap32 x)"

definition ntohl :: "endian \<Rightarrow> u32 \<Rightarrow> u32" where
  "ntohl e x = (case e of BigEndian \<Rightarrow> x | LittleEndian \<Rightarrow> bswap32 x)"

text \<open>\<open>((uint32_t *) (buffer + off))[0] = w\<close>: four bytes in the host's order.\<close>

definition store_u32 :: "endian \<Rightarrow> u8 list \<Rightarrow> nat \<Rightarrow> u32 \<Rightarrow> u8 list" where
  "store_u32 e buf off w =
     (case e of
        LittleEndian \<Rightarrow>
          buf[off := ucast w, off + 1 := ucast (drop_bit 8 w),
              off + 2 := ucast (drop_bit 16 w), off + 3 := ucast (drop_bit 24 w)]
      | BigEndian \<Rightarrow>
          buf[off := ucast (drop_bit 24 w), off + 1 := ucast (drop_bit 16 w),
              off + 2 := ucast (drop_bit 8 w), off + 3 := ucast w])"

text \<open>\<open>((const uint32_t *) (buffer + off))[0]\<close>: the matching 32-bit load.\<close>

definition load_u32 :: "endian \<Rightarrow> u8 list \<Rightarrow> nat \<Rightarrow> u32" where
  "load_u32 e buf off =
     (case e of
        LittleEndian \<Rightarrow>
          ucast (buf ! off) OR push_bit 8 (ucast (buf ! (off + 1))) OR
          push_bit 16 (ucast (buf ! (off + 2))) OR push_bit 24 (ucast (buf ! (off + 3)))
      | BigEndian \<Rightarrow>
          push_bit 24 (ucast (buf ! off)) OR push_bit 16 (ucast (buf ! (off + 1))) OR
          push_bit 8 (ucast (buf ! (off + 2))) OR ucast (buf ! (off + 3)))"

subsection \<open>Serialization\<close>

text \<open>
  Pointer arguments are options, \<open>None\<close> for a null pointer. The function writes into the
  caller's buffer and returns nothing, so the model returns the buffer after the call.
  The caller must supply at least \<open>ETHER_HEADER_SIZE\<close> bytes; in C a shorter buffer is
  overrun, which the model does not represent (\<open>xs[i := v]\<close> leaves a short list as it is).
  The 16-bit \<open>flags\<close> field is promoted to a 32-bit \<open>int\<close> before the shift, as in C.
\<close>

definition ether_msg_serialize_header ::
  "endian \<Rightarrow> ether_msg_header option \<Rightarrow> u8 list option \<Rightarrow> u8 list option" where
  "ether_msg_serialize_header e header buffer =
     (case header of
        None \<Rightarrow> buffer
      | Some h \<Rightarrow>
          (case buffer of
             None \<Rightarrow> None
           | Some buf \<Rightarrow>
               (let b0 = store_u32 e buf 0 (htonl e (msg_magic h));
                    b1 = b0[4 := msg_version h];
                    b2 = b1[5 := msg_command h];
                    b3 = b2[6 := ucast (drop_bit 8 (ucast (msg_flags h) :: u32) AND 0xFF)];
                    b4 = b3[7 := ucast ((ucast (msg_flags h) :: u32) AND 0xFF)];
                    hdl = msg_handle h;
                    b5 = b4[8 := ucast (drop_bit 56 hdl AND 0xFF)];
                    b6 = b5[9 := ucast (drop_bit 48 hdl AND 0xFF)];
                    b7 = b6[10 := ucast (drop_bit 40 hdl AND 0xFF)];
                    b8 = b7[11 := ucast (drop_bit 32 hdl AND 0xFF)];
                    b9 = b8[12 := ucast (drop_bit 24 hdl AND 0xFF)];
                    b10 = b9[13 := ucast (drop_bit 16 hdl AND 0xFF)];
                    b11 = b10[14 := ucast (drop_bit 8 hdl AND 0xFF)];
                    b12 = b11[15 := ucast (hdl AND 0xFF)];
                    b13 = store_u32 e b12 16 (htonl e (msg_size h));
                    b14 = store_u32 e b13 20 (htonl e (msg_reserved h))
                in Some b14)))"

text \<open>
  Deserialization assigns every field of the caller's header, so the header it leaves is
  built from the buffer alone. With a null pointer on either side the header is left as
  it was.
\<close>

definition ether_msg_deserialize_header ::
  "endian \<Rightarrow> u8 list option \<Rightarrow> ether_msg_header option \<Rightarrow> ether_msg_header option" where
  "ether_msg_deserialize_header e buffer header =
     (case buffer of
        None \<Rightarrow> header
      | Some buf \<Rightarrow>
          (case header of
             None \<Rightarrow> None
           | Some h \<Rightarrow>
               Some (h\<lparr>
                 msg_magic := ntohl e (load_u32 e buf 0),
                 msg_version := buf ! 4,
                 msg_command := buf ! 5,
                 msg_flags :=
                   ucast (push_bit 8 (ucast (ucast (buf ! 6) :: u16) :: u32) OR
                          (ucast (buf ! 7) :: u32)),
                 msg_handle :=
                   push_bit 56 (ucast (buf ! 8)) OR push_bit 48 (ucast (buf ! 9)) OR
                   push_bit 40 (ucast (buf ! 10)) OR push_bit 32 (ucast (buf ! 11)) OR
                   push_bit 24 (ucast (buf ! 12)) OR push_bit 16 (ucast (buf ! 13)) OR
                   push_bit 8 (ucast (buf ! 14)) OR ucast (buf ! 15),
                 msg_size := ntohl e (load_u32 e buf 16),
                 msg_reserved := ntohl e (load_u32 e buf 20)\<rparr>)))"

text \<open>The header of Scenario C (also the one of the protocol test suite).\<close>

definition scenario_c_header :: ether_msg_header where
  "scenario_c_header =
     \<lparr>msg_magic = ETHER_MAGIC, msg_version = 1, msg_command = ETHER_CMD_ALLOC,
      msg_flags = 0x1234, msg_handle = 0xDEADBEEFCAFEBABE, msg_size = 12345,
      msg_reserved = 0\<rparr>"

definition zero_header :: ether_msg_header where
  "zero_header =
     \<lparr>msg_magic = 0, msg_version = 0, msg_command = 0, msg_flags = 0, msg_handle = 0,
      msg_size = 0, msg_reserved = 0\<rparr>"

section \<open>Block allocator (allocator.c)\<close>

definition BLOCK_MAGIC :: u32 where
  "BLOCK_MAGIC = 0xF9A9582B"

definition BLOCK_FREED :: u32 where
  "BLOCK_FREED = 0x8FD76019"

definition FLAG_ALLOCATED :: u32 where
  "FLAG_ALLOCATED = 0x01"

definition FLAG_ENCRYPTED :: u32 where
  "FLAG_ENCRYPTED = 0x02"

definition HEADER_SIZE :: nat where
  "HEADER_SIZE = 24"

text \<open>
  A block is a \<open>block_header_t\<close> followed by its data area. The model keeps the header
  fields and the bytes of the data area together, as one object per \<open>malloc\<close> result:
  \<open>blk_data\<close> holds the \<open>capacity\<close> bytes that follow the header.
\<close>

record block =
  blk_magic :: u32
  blk_flags :: u32
  blk_size :: size_t
  blk_capacity :: size_t
  blk_data :: "u8 list"

record ether_stats =
  total_allocated :: size_t
  total_freed :: size_t
  current_usage :: size_t
  peak_usage :: size_t
  num_allocs :: size_t
  num_frees :: size_t

datatype ether_error =
  ETHER_OK | ETHER_ERR_NOMEM | ETHER_ERR_INVALID | ETHER_ERR_CORRUPT | ETHER_ERR_OVERFLOW
  | ETHER_ERR_NETWORK | ETHER_ERR_TIMEOUT | ETHER_ERR_NOTFOUND

text \<open>The error lines the allocator prints on \<open>stderr\<close>, with the pointer they name.\<close>

datatype diagnostic = InvalidFree addr | DoubleFree addr | InvalidRealloc addr

text \<open>
  The state of the allocator: the blocks it has obtained from \<open>malloc\<close> and not given
  back, keyed by the address of the header, the global \<open>g_stats\<close>, the list of addresses
  it has handed to \<open>free\<close> (latest first), and what it has printed on \<open>stderr\<close>.

  Storage handed to \<open>free\<close> belongs to the C library again: the block leaves \<open>heap\<close>, and
  until \<open>malloc\<close> returns the same address once more the address is \<open>dangling\<close>. What a
  dangling address holds is no longer the program's to read (the library may have put
  its own links there or unmapped the page), so a call that reads it has no defined
  behaviour; the functions below return \<open>None\<close> for such a call, and \<open>Some\<close> of their
  result otherwise. An address that holds no block and was never released stands for
  memory that never came from this allocator; it is taken to be readable and not to
  carry \<open>BLOCK_MAGIC\<close>.
\<close>

record allocator =
  heap :: "addr \<Rightarrow> block option"
  g_stats :: ether_stats
  sys_freed :: "addr list"
  stderr_log :: "diagnostic list"

definition zero_stats :: ether_stats where
  "zero_stats =
     \<lparr>total_allocated = 0, total_freed = 0, current_usage = 0, peak_usage = 0,
      num_allocs = 0, num_frees = 0\<rparr>"

definition init_allocator :: allocator where
  "init_allocator = \<lparr>heap = Map.empty, g_stats = zero_stats, sys_freed = [], stderr_log = []\<rparr>"

text \<open>
  Pointer arithmetic between a user pointer and its header. On natural numbers the
  subtraction stops at 0 for a pointer below \<open>HEADER_SIZE\<close>; 0 is \<open>NULL\<close>, which fails
  the validity check (in C the address would wrap to one that holds no block).
\<close>

definition get_header :: "addr \<Rightarrow> addr" where
  "get_header ptr = ptr - HEADER_SIZE"

definition get_user_ptr :: "addr \<Rightarrow> addr" where
  "get_user_ptr header = header + HEADER_SIZE"

text \<open>
  \<open>is_valid_block\<close> returns false for a null header without reading it, and reads
  \<open>header->magic\<close> and \<open>header->flags\<close> otherwise. Whether that read is of released
  storage is what \<open>dangling\<close> says; every caller below asks it first.
\<close>

definition dangling :: "allocator \<Rightarrow> addr \<Rightarrow> bool" where
  "dangling s header =
     (header \<noteq> NULL \<and> heap s header = None \<and> header \<in> set (sys_freed s))"

definition is_valid_block :: "allocator \<Rightarrow> addr \<Rightarrow> bool" where
  "is_valid_block s header =
     (header \<noteq> NULL \<and>
      (case heap s header of
         None \<Rightarrow> False
       | Some b \<Rightarrow> blk_magic b = BLOCK_MAGIC \<and> blk_flags b AND FLAG_ALLOCATED \<noteq> 0))"

text \<open>
  \<open>ether_alloc\<close>. The third argument is what \<open>malloc(total)\<close> returned on this call: the
  address of the new header, or \<open>NULL\<close>. \<open>total\<close> is \<open>HEADER_SIZE + size\<close> in \<open>size_t\<close>
  arithmetic, so for \<open>size\<close> above \<open>SIZE_MAX - HEADER_SIZE\<close> it wraps to less than
  \<open>HEADER_SIZE\<close>; \<open>malloc\<close> may well serve so small a request, and the stores into the
  header and the \<open>memset\<close> of \<open>size\<close> bytes then run past the storage obtained: no defined
  behaviour, \<open>None\<close>.
\<close>

definition ether_alloc :: "allocator \<Rightarrow> size_t \<Rightarrow> addr \<Rightarrow> (allocator \<times> addr) option" where
  "ether_alloc s sz header =
     (if sz = 0 then Some (s, NULL)
      else
        (let total = (of_nat HEADER_SIZE :: size_t) + sz in
         if header = NULL then Some (s, NULL)
         else if unat total < HEADER_SIZE + unat sz then None
         else
           (let blk = \<lparr>blk_magic = BLOCK_MAGIC, blk_flags = FLAG_ALLOCATED, blk_size = sz,
                       blk_capacity = sz, blk_data = replicate (unat sz) 0\<rparr>;
                user_ptr = get_user_ptr header;
                st = g_stats s;
                st1 = st\<lparr>total_allocated := total_allocated st + sz,
                          current_usage := current_usage st + sz,
                          num_allocs := num_allocs st + 1\<rparr>;
                st2 = (if current_usage st1 > peak_usage st1
                       then st1\<lparr>peak_usage := current_usage st1\<rparr> else st1)
            in Some (s\<lparr>heap := (heap s)(header \<mapsto> blk), g_stats := st2\<rparr>, user_ptr))))"

text \<open>
  \<open>free(header)\<close> of the C library: the storage at \<open>header\<close> stops being the program's.
\<close>

definition sys_free :: "allocator \<Rightarrow> addr \<Rightarrow> allocator" where
  "sys_free s header =
     s\<lparr>heap := (heap s)(header := None), sys_freed := header # sys_freed s\<rparr>"

text \<open>
  \<open>ether_free\<close>. \<open>is_valid_block\<close> reads \<open>header->magic\<close>, which for a dangling header is a
  read of released storage. The test for \<open>BLOCK_FREED\<close> comes after the validity check,
  as in the source, where it can no longer succeed: a header tagged \<open>BLOCK_FREED\<close> has
  already failed \<open>is_valid_block\<close>. The tag \<open>BLOCK_FREED\<close> and the cleared flags are
  written just before the call to \<open>free\<close>, and go with the storage.
\<close>

definition ether_free :: "allocator \<Rightarrow> addr \<Rightarrow> allocator option" where
  "ether_free s ptr =
     (if ptr = NULL then Some s
      else
        (let header = get_header ptr in
         if dangling s header then None
         else if \<not> is_valid_block s header
         then Some (s\<lparr>stderr_log := stderr_log s @ [InvalidFree ptr]\<rparr>)
         else
           (case heap s header of
              None \<Rightarrow> Some s
            | Some b \<Rightarrow>
                if blk_magic b = BLOCK_FREED
                then Some (s\<lparr>stderr_log := stderr_log s @ [DoubleFree ptr]\<rparr>)
                else
                  (let sz = blk_size b;
                       b1 = b\<lparr>blk_data := replicate (unat sz) 0 @ drop (unat sz) (blk_data b)\<rparr>;
                       b2 = b1\<lparr>blk_magic := BLOCK_FREED, blk_flags := 0\<rparr>;
                       st = g_stats s;
                       st1 = st\<lparr>total_freed := total_freed st + sz,
                                 current_usage := current_usage st - sz,
                                 num_frees := num_frees st + 1\<rparr>
                   in Some (sys_free (s\<lparr>heap := (heap s)(header \<mapsto> b2), g_stats := st1\<rparr>)
                              header)))))"

text \<open>\<open>memcpy(dst, src, n)\<close> between the data areas of two blocks, by user pointer.\<close>

definition memcpy_blocks :: "allocator \<Rightarrow> addr \<Rightarrow> addr \<Rightarrow> size_t \<Rightarrow> allocator" where
  "memcpy_blocks s dst src n =
     (case (heap s (get_header dst), heap s (get_header src)) of
        (Some d, Some b) \<Rightarrow>
          s\<lparr>heap := (heap s)(get_header dst \<mapsto>
               d\<lparr>blk_data := take (unat n) (blk_data b) @ drop (unat n) (blk_data d)\<rparr>)\<rparr>
      | _ \<Rightarrow> s)"

text \<open>
  \<open>ether_realloc\<close>. The last argument is the result of the \<open>malloc\<close> inside the nested
  \<open>ether_alloc\<close>, when that call is reached.
\<close>

definition ether_realloc ::
  "allocator \<Rightarrow> addr \<Rightarrow> size_t \<Rightarrow> addr \<Rightarrow> (allocator \<times> addr) option" where
  "ether_realloc s ptr new_size mres =
     (if ptr = NULL then ether_alloc s new_size mres
      else if new_size = 0
      then (case ether_free s ptr of None \<Rightarrow> None | Some s1 \<Rightarrow> Some (s1, NULL))
      else
        (let old_header = get_header ptr in
         if dangling s old_header then None
         else if \<not> is_valid_block s old_header
         then Some (s\<lparr>stderr_log := stderr_log s @ [InvalidRealloc ptr]\<rparr>, NULL)
         else
           (case heap s old_header of
              None \<Rightarrow> Some (s, NULL)
            | Some ob \<Rightarrow>
                (let old_size = blk_size ob in
                 if new_size \<le> blk_capacity ob
                 then
                   (let b1 = ob\<lparr>blk_size := new_size\<rparr>;
                        b2 = (if new_size > old_size
                              then b1\<lparr>blk_data :=
                                     take (unat old_size) (blk_data b1) @
                                     replicate (unat (new_size - old_size)) 0 @
                                     drop (unat new_size) (blk_data b1)\<rparr>
                              else b1)
                    in Some (s\<lparr>heap := (heap s)(old_header \<mapsto> b2)\<rparr>, ptr))
                 else
                   (case ether_alloc s new_size mres of
                      None \<Rightarrow> None
                    | Some (s1, new_ptr) \<Rightarrow>
                        if new_ptr = NULL then Some (s1, NULL)
                        else
                          (let copy_size = (if old_size < new_size then old_size else new_size);
                               s2 = memcpy_blocks s1 new_ptr ptr copy_size
                           in (case ether_free s2 ptr of
                                 None \<Rightarrow> None
                               | Some s3 \<Rightarrow> Some (s3, new_ptr))))))))"

text \<open>
  \<open>ether_write\<close> and \<open>ether_read\<close>. The caller's buffer is a byte list, \<open>None\<close> for a null
  pointer; it must hold at least \<open>len\<close> bytes (C would read or write past a shorter one).
  \<open>ether_read\<close> returns the caller's buffer as the call leaves it.
\<close>

definition ether_write ::
  "allocator \<Rightarrow> addr \<Rightarrow> u8 list option \<Rightarrow> size_t \<Rightarrow> (allocator \<times> ether_error) option" where
  "ether_write s ptr data len =
     (if ptr = NULL then Some (s, ETHER_ERR_INVALID)
      else
        (case data of
           None \<Rightarrow> Some (s, ETHER_ERR_INVALID)
         | Some d \<Rightarrow>
             (let header = get_header ptr in
              if dangling s header then None
              else if \<not> is_valid_block s header then Some (s, ETHER_ERR_CORRUPT)
              else
                (case heap s header of
                   None \<Rightarrow> Some (s, ETHER_ERR_CORRUPT)
                 | Some b \<Rightarrow>
                     if len > blk_size b then Some (s, ETHER_ERR_OVERFLOW)
                     else
                       Some (s\<lparr>heap := (heap s)(header \<mapsto>
                               b\<lparr>blk_data := take (unat len) d @
                                              drop (unat len) (blk_data b)\<rparr>)\<rparr>,
                             ETHER_OK)))))"

definition ether_read ::
  "allocator \<Rightarrow> addr \<Rightarrow> u8 list option \<Rightarrow> size_t \<Rightarrow> (ether_error \<times> u8 list option) option"
  where
  "ether_read s ptr buffer len =
     (if ptr = NULL then Some (ETHER_ERR_INVALID, buffer)
      else
        (case buffer of
           None \<Rightarrow> Some (ETHER_ERR_INVALID, None)
         | Some buf \<Rightarrow>
             (let header = get_header ptr in
              if dangling s header then None
              else if \<not> is_valid_block s header then Some (ETHER_ERR_CORRUPT, buffer)
              else
                (case heap s header of
                   None \<Rightarrow> Some (ETHER_ERR_CORRUPT, buffer)
                 | Some b \<Rightarrow>
                     if len > blk_size b then Some (ETHER_ERR_OVERFLOW, buffer)
                     else
                       Some (ETHER_OK,
                             Some (take (unat len) (blk_data b) @ drop (unat len) buf))))))"

definition ether_size :: "allocator \<Rightarrow> addr \<Rightarrow> size_t option" where
  "ether_size s ptr =
     (if ptr = NULL then Some 0
      else
        (let header = get_header ptr in
         if dangling s header then None
         else if \<not> is_valid_block s header then Some 0
         else (case heap s header of None \<Rightarrow> Some 0 | Some b \<Rightarrow> Some (blk_size b))))"

definition ether_get_stats :: "allocator \<Rightarrow> ether_stats" where
  "ether_get_stats s = g_stats s"

definition ether_reset_stats :: "allocator \<Rightarrow> allocator" where
  "ether_reset_stats s = s\<lparr>g_stats := zero_stats\<rparr>"

subsection \<open>Live regions\<close>

text \<open>
  The data model's invariant on a block: \<open>requested_size \<le> capacity\<close>, and the data
  area holds \<open>capacity\<close> bytes. A region is live when its user pointer is not null, its
  header passes the validity check, and the block is well formed. A region has been
  released when its header has been handed to \<open>free\<close> and is dangling since.
\<close>

definition block_wf :: "block \<Rightarrow> bool" where
  "block_wf b = (blk_size b \<le> blk_capacity b \<and> length (blk_data b) = unat (blk_capacity b))"

definition live_region :: "allocator \<Rightarrow> addr \<Rightarrow> block \<Rightarrow> bool" where
  "live_region s ptr b =
     (ptr \<noteq> NULL \<and> heap s (get_header ptr) = Some b \<and>
      is_valid_block s (get_header ptr) \<and> block_wf b)"

definition released_region :: "allocator \<Rightarrow> addr \<Rightarrow> bool" where
  "released_region s ptr = (ptr \<noteq> NULL \<and> dangling s (get_header ptr))"

definition heap_wf :: "allocator \<Rightarrow> bool" where
  "heap_wf s = (\<forall>h b. heap s h = Some b \<longrightarrow> block_wf b)"

text \<open>
  A small concrete state used to exercise the theorems: one block of 8 bytes, whose
  header \<open>malloc\<close> placed at address 4096, holding the bytes 1 to 8.
\<close>

definition one_block_contents :: block where
  "one_block_contents =
     \<lparr>blk_magic = BLOCK_MAGIC, blk_flags = FLAG_ALLOCATED, blk_size = 8, blk_capacity = 8,
      blk_data = [1, 2, 3, 4, 5, 6, 7, 8]\<rparr>"

definition one_block :: allocator where
  "one_block =
     \<lparr>heap = [4096 \<mapsto> one_block_contents],
      g_stats = \<lparr>total_allocated = 8, total_freed = 0, current_usage = 8, peak_usage = 8,
                 num_allocs = 1, num_frees = 0\<rparr>,
      sys_freed = [], stderr_log = []\<rparr>"

subsection \<open>Sequences of allocator operations\<close>

text \<open>
  To speak of "any sequence of operations": an operation is a call to \<open>ether_alloc\<close>,
  \<open>ether_free\<close>, \<open>ether_realloc\<close> or \<open>ether_reset_stats\<close> with its arguments, the calls
  that can reach \<open>malloc\<close> carrying what \<open>malloc\<close> returned. A sequence runs to its end,
  or up to the first call whose behaviour is undefined: that call changes no counter
  before it goes wrong, and nothing can be said of the process after it, so \<open>run_ops\<close>
  gives the state in which the sequence stops.
\<close>

datatype alloc_op =
  Alloc size_t addr | Free addr | Realloc addr size_t addr | ResetStats

fun apply_op :: "allocator \<Rightarrow> alloc_op \<Rightarrow> allocator option" where
  "apply_op s (Alloc n m) = map_option fst (ether_alloc s n m)"
| "apply_op s (Free p) = ether_free s p"
| "apply_op s (Realloc p n m) = map_option fst (ether_realloc s p n m)"
| "apply_op s ResetStats = Some (ether_reset_stats s)"

fun run_ops :: "allocator \<Rightarrow> alloc_op list \<Rightarrow> allocator" where
  "run_ops s [] = s"
| "run_ops s (x # xs) =
     (case apply_op s x of None \<Rightarrow> s | Some s1 \<Rightarrow> run_ops s1 xs)"

text \<open>The two relations of the statistics invariant.\<close>

definition usage_balanced :: "ether_stats \<Rightarrow> bool" where
  "usage_balanced st = (total_allocated st - total_freed st = current_usage st)"

definition usage_below_peak :: "ether_stats \<Rightarrow> bool" where
  "usage_below_peak st = (current_usage st \<le> peak_usage st)"

text \<open>
  The bytes a sequence asks for, and the condition that \<open>ether_reset_stats\<close> is only
  called at moments when no block is live.
\<close>

fun requested :: "alloc_op \<Rightarrow> nat" where
  "requested (Alloc n m) = unat n"
| "requested (Realloc p n m) = unat n"
| "requested (Free p) = 0"
| "requested ResetStats = 0"

definition total_requested :: "alloc_op list \<Rightarrow> nat" where
  "total_requested ops = sum_list (map requested ops)"

definition no_live_block :: "allocator \<Rightarrow> bool" where
  "no_live_block s = (\<forall>h. \<not> is_valid_block s h)"

fun quiet_resets :: "allocator \<Rightarrow> alloc_op list \<Rightarrow> bool" where
  "quiet_resets s [] = True"
| "quiet_resets s (x # xs) =
     ((x = ResetStats \<longrightarrow> no_live_block s) \<and>
      (case apply_op s x of None \<Rightarrow> True | Some s1 \<Rightarrow> quiet_resets s1 xs))"

text \<open>
  The bytes the statistics still owe to live blocks: the capacity of every block that
  passes the validity check. The invariant that sequences with quiet resets maintain
  relates it to the counters, read as natural numbers.
\<close>

definition weight_of :: "addr \<Rightarrow> block option \<Rightarrow> nat" where
  "weight_of h ob =
     (case ob of
        None \<Rightarrow> 0
      | Some b \<Rightarrow>
          if h \<noteq> NULL \<and> blk_magic b = BLOCK_MAGIC \<and> blk_flags b AND FLAG_ALLOCATED \<noteq> 0
          then unat (blk_capacity b) else 0)"

definition outstanding :: "allocator \<Rightarrow> nat" where
  "outstanding s = (\<Sum>h \<in> dom (heap s). weight_of h (heap s h))"

definition alloc_inv :: "allocator \<Rightarrow> bool" where
  "alloc_inv s =
     (finite (dom (heap s)) \<and>
      (\<forall>h b. heap s h = Some b \<and> is_valid_block s h \<longrightarrow> blk_size b \<le> blk_capacity b) \<and>
      outstanding s \<le> unat (current_usage (g_stats s)) \<and>
      unat (total_freed (g_stats s)) + unat (current_usage (g_stats s)) =
        unat (total_allocated (g_stats s)) \<and>
      current_usage (g_stats s) \<le> peak_usage (g_stats s))"

section \<open>Message creation and validation (protocol.c)\<close>

text \<open>\<open>ether_msg_t\<close>: a header and a payload of \<open>size\<close> bytes.\<close>

record ether_msg =
  msg_header :: ether_msg_header
  msg_payload :: "u8 list"

text \<open>
  \<open>ether_msg_create\<close>. The command is the byte that \<open>(uint8_t) cmd\<close> yields. The second
  argument says whether \<open>calloc\<close> succeeded on this call. \<open>calloc\<close> zeroes the payload.
\<close>

definition ether_msg_create :: "bool \<Rightarrow> u8 \<Rightarrow> size_t \<Rightarrow> ether_msg option" where
  "ether_msg_create calloc_ok cmd payload_size =
     (if unat payload_size > ETHER_MAX_PAYLOAD then None
      else if \<not> calloc_ok then None
      else
        Some \<lparr>msg_header =
                \<lparr>msg_magic = ETHER_MAGIC, msg_version = ETHER_PROTOCOL_VER,
                 msg_command = cmd, msg_flags = 0, msg_handle = 0,
                 msg_size = ucast payload_size, msg_reserved = 0\<rparr>,
              msg_payload = replicate (unat payload_size) 0\<rparr>)"

definition ether_msg_validate :: "ether_msg_header option \<Rightarrow> bool" where
  "ether_msg_validate header =
     (case header of
        None \<Rightarrow> False
      | Some h \<Rightarrow>
          if msg_magic h \<noteq> ETHER_MAGIC then False
          else if msg_version h \<noteq> ETHER_PROTOCOL_VER then False
          else if unat (msg_size h) > ETHER_MAX_PAYLOAD then False
          else True)"

section \<open>Server (etherd): handle table\<close>

definition MAX_HANDLES :: nat where
  "MAX_HANDLES = 1024"

text \<open>\<open>handle_entry_t\<close>. The \<open>int in_use\<close> only ever holds 0 or 1 and is a \<open>bool\<close> here.\<close>

record handle_entry =
  ent_handle :: u64
  ent_ptr :: addr
  ent_size :: size_t
  ent_in_use :: bool

text \<open>
  The server's globals: the allocator it links, the table \<open>g_handles[1024]\<close> and the
  counter \<open>g_next_handle\<close>.
\<close>

record server =
  srv_alloc :: allocator
  g_handles :: "handle_entry list"
  g_next_handle :: u64

definition empty_entry :: handle_entry where
  "empty_entry = \<lparr>ent_handle = 0, ent_ptr = NULL, ent_size = 0, ent_in_use = False\<rparr>"

definition init_server :: server where
  "init_server =
     \<lparr>srv_alloc = init_allocator, g_handles = replicate MAX_HANDLES empty_entry,
      g_next_handle = 1\<rparr>"

text \<open>The \<open>for\<close> loop of \<open>store_handle\<close>, from index \<open>i\<close> on.\<close>

function store_handle_from :: "server \<Rightarrow> addr \<Rightarrow> size_t \<Rightarrow> nat \<Rightarrow> server \<times> u64" where
  "store_handle_from sv ptr sz i =
     (if i < MAX_HANDLES then
        (if \<not> ent_in_use (g_handles sv ! i) then
           (sv\<lparr>g_handles := (g_handles sv)
                  [i := \<lparr>ent_handle = g_next_handle sv, ent_ptr = ptr, ent_size = sz,
                         ent_in_use = True\<rparr>],
               g_next_handle := g_next_handle sv + 1\<rparr>,
            g_next_handle sv)
         else store_handle_from sv ptr sz (i + 1))
      else (sv, 0))"
  by pat_completeness auto
termination
  by (relation "measure (\<lambda>(sv, ptr, sz, i). MAX_HANDLES - i)") auto

definition store_handle :: "server \<Rightarrow> addr \<Rightarrow> size_t \<Rightarrow> server \<times> u64" where
  "store_handle sv ptr sz = store_handle_from sv ptr sz 0"

text \<open>
  \<open>lookup_handle\<close> returns the stored pointer and writes the stored size through its
  second argument; \<open>None\<close> stands for the return of \<open>NULL\<close> with nothing written.
\<close>

function lookup_handle_from :: "server \<Rightarrow> u64 \<Rightarrow> nat \<Rightarrow> (addr \<times> size_t) option" where
  "lookup_handle_from sv h i =
     (if i < MAX_HANDLES then
        (if ent_in_use (g_handles sv ! i) \<and> ent_handle (g_handles sv ! i) = h
         then Some (ent_ptr (g_handles sv ! i), ent_size (g_handles sv ! i))
         else lookup_handle_from sv h (i + 1))
      else None)"
  by pat_completeness auto
termination
  by (relation "measure (\<lambda>(sv, h, i). MAX_HANDLES - i)") auto

definition lookup_handle :: "server \<Rightarrow> u64 \<Rightarrow> (addr \<times> size_t) option" where
  "lookup_handle sv h = lookup_handle_from sv h 0"

function remove_handle_from :: "server \<Rightarrow> u64 \<Rightarrow> nat \<Rightarrow> server \<times> bool" where
  "remove_handle_from sv h i =
     (if i < MAX_HANDLES then
        (if ent_in_use (g_handles sv ! i) \<and> ent_handle (g_handles sv ! i) = h
         then (sv\<lparr>g_handles := (g_handles sv)
                     [i := (g_handles sv ! i)\<lparr>ent_in_use := False, ent_ptr := NULL\<rparr>]\<rparr>,
               True)
         else remove_handle_from sv h (i + 1))
      else (sv, False))"
  by pat_completeness auto
termination
  by (relation "measure (\<lambda>(sv, h, i). MAX_HANDLES - i)") auto

definition remove_handle :: "server \<Rightarrow> u64 \<Rightarrow> server \<times> bool" where
  "remove_handle sv h = remove_handle_from sv h 0"

subsection \<open>Histories of the handle table\<close>

text \<open>
  To speak of every handle issued so far: a history is a list of calls to \<open>store_handle\<close>
  and \<open>remove_handle\<close>; \<open>run_table\<close> applies it and collects, in order, what each call to
  \<open>store_handle\<close> returned. The table is full when all of its 1024 slots are in use.
\<close>

datatype table_op = Store addr size_t | Remove u64

fun table_step :: "server \<Rightarrow> table_op \<Rightarrow> server" where
  "table_step sv (Store p n) = fst (store_handle sv p n)"
| "table_step sv (Remove h) = fst (remove_handle sv h)"

fun issued_by :: "server \<Rightarrow> table_op \<Rightarrow> u64 list" where
  "issued_by sv (Store p n) = [snd (store_handle sv p n)]"
| "issued_by sv (Remove h) = []"

fun run_table :: "server \<Rightarrow> table_op list \<Rightarrow> server \<times> u64 list" where
  "run_table sv [] = (sv, [])"
| "run_table sv (x # xs) =
     (case run_table (table_step sv x) xs of (sv1, hs) \<Rightarrow> (sv1, issued_by sv x @ hs))"

definition table_full :: "server \<Rightarrow> bool" where
  "table_full sv = (\<forall>i<MAX_HANDLES. ent_in_use (g_handles sv ! i))"

text \<open>
  What a history maintains: the table keeps its 1024 slots, the counter is not 0, and
  every handle in the table and every handle issued so far is below the counter.
\<close>

definition table_inv :: "server \<Rightarrow> u64 list \<Rightarrow> bool" where
  "table_inv sv hs =
     (length (g_handles sv) = MAX_HANDLES \<and> g_next_handle sv \<noteq> 0 \<and>
      list_all (\<lambda>e. ent_handle e < g_next_handle sv) (g_handles sv) \<and>
      list_all (\<lambda>h. h < g_next_handle sv) hs)"

section \<open>Server (etherd): request handlers\<close>

text \<open>
  What the surroundings decide during one pass of the client loop: the byte order of the
  host, and the outcome of each call to the C library's allocator that the pass can
  reach. The contents of fresh storage are indeterminate in C; the model starts such
  buffers at zero, and every byte of them is overwritten before it is used.
\<close>

record env =
  host_order :: endian
  malloc_payload_ok :: bool
  malloc_block :: addr
  malloc_scratch_ok :: bool
  calloc_msg_ok :: bool

text \<open>
  \<open>send_response\<close>. The result is the bytes handed to \<open>send\<close>, header first; nothing is
  sent when the message cannot be created. Whether the socket delivers them is outside
  the model.
\<close>

definition send_response :: "env \<Rightarrow> u8 \<Rightarrow> u64 \<Rightarrow> u8 list option \<Rightarrow> size_t \<Rightarrow> u8 list" where
  "send_response ev cmd hdl data data_len =
     (case ether_msg_create (calloc_msg_ok ev) cmd data_len of
        None \<Rightarrow> []
      | Some response \<Rightarrow>
          (let hdr = (msg_header response)\<lparr>msg_handle := hdl\<rparr>;
               payload =
                 (case data of
                    None \<Rightarrow> msg_payload response
                  | Some d \<Rightarrow>
                      if data_len > 0
                      then take (unat data_len) d @ drop (unat data_len) (msg_payload response)
                      else msg_payload response);
               header_buf =
                 ether_msg_serialize_header (host_order ev) (Some hdr)
                   (Some (replicate ETHER_HEADER_SIZE 0))
           in (case header_buf of None \<Rightarrow> [] | Some hb \<Rightarrow> take ETHER_HEADER_SIZE hb) @
              (if data_len > 0 then take (unat data_len) payload else [])))"

definition handle_ping :: "env \<Rightarrow> u8 list" where
  "handle_ping ev = send_response ev ETHER_CMD_PONG 0 None 0"

text \<open>
  The handlers that call the allocator. Each gives the server after the call and the
  bytes sent, or \<open>None\<close> when the allocator call it makes has no defined behaviour.
\<close>

definition handle_alloc ::
  "env \<Rightarrow> server \<Rightarrow> ether_msg_header \<Rightarrow> (server \<times> u8 list) option" where
  "handle_alloc ev sv header =
     (let sz = (ucast (msg_size header) :: size_t) in
      case ether_alloc (srv_alloc sv) sz (malloc_block ev) of
        None \<Rightarrow> None
      | Some (a1, ptr) \<Rightarrow>
          if ptr = NULL
          then Some (sv\<lparr>srv_alloc := a1\<rparr>, send_response ev ETHER_CMD_ERROR 0 None 0)
          else
            (case store_handle (sv\<lparr>srv_alloc := a1\<rparr>) ptr sz of
               (sv1, hdl) \<Rightarrow>
                 if hdl = 0
                 then (case ether_free (srv_alloc sv1) ptr of
                         None \<Rightarrow> None
                       | Some a2 \<Rightarrow>
                           Some (sv1\<lparr>srv_alloc := a2\<rparr>,
                                 send_response ev ETHER_CMD_ERROR 0 None 0))
                 else Some (sv1, send_response ev ETHER_CMD_OK hdl None 0)))"

definition handle_free ::
  "env \<Rightarrow> server \<Rightarrow> ether_msg_header \<Rightarrow> (server \<times> u8 list) option" where
  "handle_free ev sv header =
     (let hdl = msg_handle header in
      case lookup_handle sv hdl of
        None \<Rightarrow> Some (sv, send_response ev ETHER_CMD_ERROR hdl None 0)
      | Some (ptr, sz) \<Rightarrow>
          if ptr = NULL then Some (sv, send_response ev ETHER_CMD_ERROR hdl None 0)
          else
            (case ether_free (srv_alloc sv) ptr of
               None \<Rightarrow> None
             | Some a1 \<Rightarrow>
                 (let sv1 = sv\<lparr>srv_alloc := a1\<rparr>;
                      sv2 = fst (remove_handle sv1 hdl)
                  in Some (sv2, send_response ev ETHER_CMD_OK hdl None 0))))"

definition handle_write ::
  "env \<Rightarrow> server \<Rightarrow> ether_msg_header \<Rightarrow> u8 list option \<Rightarrow> (server \<times> u8 list) option" where
  "handle_write ev sv header payload =
     (let hdl = msg_handle header;
          len = (ucast (msg_size header) :: size_t)
      in case lookup_handle sv hdl of
           None \<Rightarrow> Some (sv, send_response ev ETHER_CMD_ERROR hdl None 0)
         | Some (ptr, block_size) \<Rightarrow>
             if ptr = NULL then Some (sv, send_response ev ETHER_CMD_ERROR hdl None 0)
             else if len > block_size
             then Some (sv, send_response ev ETHER_CMD_ERROR hdl None 0)
             else
               (case ether_write (srv_alloc sv) ptr payload len of
                  None \<Rightarrow> None
                | Some (a1, ret) \<Rightarrow>
                    if ret \<noteq> ETHER_OK
                    then Some (sv\<lparr>srv_alloc := a1\<rparr>,
                               send_response ev ETHER_CMD_ERROR hdl None 0)
                    else Some (sv\<lparr>srv_alloc := a1\<rparr>,
                               send_response ev ETHER_CMD_OK hdl None 0)))"

definition handle_read ::
  "env \<Rightarrow> server \<Rightarrow> ether_msg_header \<Rightarrow> (server \<times> u8 list) option" where
  "handle_read ev sv header =
     (let hdl = msg_handle header;
          len0 = (ucast (msg_size header) :: size_t)
      in case lookup_handle sv hdl of
           None \<Rightarrow> Some (sv, send_response ev ETHER_CMD_ERROR hdl None 0)
         | Some (ptr, block_size) \<Rightarrow>
             if ptr = NULL then Some (sv, send_response ev ETHER_CMD_ERROR hdl None 0)
             else
               (let len = (if len0 > block_size then block_size else len0) in
                if \<not> malloc_scratch_ok ev
                then Some (sv, send_response ev ETHER_CMD_ERROR hdl None 0)
                else
                  (case ether_read (srv_alloc sv) ptr (Some (replicate (unat len) 0)) len of
                     None \<Rightarrow> None
                   | Some (ret, buffer) \<Rightarrow>
                       if ret \<noteq> ETHER_OK
                       then Some (sv, send_response ev ETHER_CMD_ERROR hdl None 0)
                       else Some (sv, send_response ev ETHER_CMD_OK hdl buffer len))))"

section \<open>Server (etherd): the client loop\<close>

text \<open>
  One pass of the \<open>while\<close> loop of \<open>handle_client\<close>. Its input is what the two \<open>recv\<close>
  calls deliver: \<open>None\<close> for a return value \<open>n \<le> 0\<close>, else the bytes received
  (\<open>MSG_WAITALL\<close>: the full count). The pointer \<open>payload\<close> is declared before the loop and
  is \<open>NULL\<close> at the top of every pass: it starts \<open>NULL\<close>, a pass that reaches the bottom
  resets it, and \<open>continue\<close> is taken before it is assigned. The result is the server
  after the pass, the bytes sent, and whether the loop goes on; \<open>None\<close> when the handler
  the pass dispatches to has no defined behaviour.
\<close>

record request_io =
  io_env :: env
  io_header :: "u8 list option"
  io_payload :: "u8 list option"

definition handle_client_step ::
  "server \<Rightarrow> request_io \<Rightarrow> (server \<times> u8 list \<times> bool) option" where
  "handle_client_step sv io =
     (let ev = io_env io in
      case io_header io of
        None \<Rightarrow> Some (sv, [], False)
      | Some header_buf \<Rightarrow>
          (case ether_msg_deserialize_header (host_order ev) (Some header_buf)
                  (Some zero_header) of
             None \<Rightarrow> Some (sv, [], True)
           | Some header \<Rightarrow>
               if \<not> ether_msg_validate (Some header) then Some (sv, [], True)
               else
                 (let recv_payload =
                        (if msg_size header > 0
                         then (if \<not> malloc_payload_ok ev then None
                               else (case io_payload io of
                                       None \<Rightarrow> None
                                     | Some p \<Rightarrow> Some (Some p)))
                         else Some None)
                  in case recv_payload of
                       None \<Rightarrow> Some (sv, [], False)
                     | Some payload \<Rightarrow>
                         (case (if msg_command header = ETHER_CMD_PING
                                then Some (sv, handle_ping ev)
                                else if msg_command header = ETHER_CMD_ALLOC
                                then handle_alloc ev sv header
                                else if msg_command header = ETHER_CMD_FREE
                                then handle_free ev sv header
                                else if msg_command header = ETHER_CMD_WRITE
                                then handle_write ev sv header payload
                                else if msg_command header = ETHER_CMD_READ
                                then handle_read ev sv header
                                else Some (sv, send_response ev ETHER_CMD_ERROR 0 None 0))
                          of None \<Rightarrow> None
                           | Some (sv1, sent) \<Rightarrow> Some (sv1, sent, True)))))"

text \<open>
  The loop itself, over the passes the connection supplies; it ends when a pass breaks
  or when the peer has closed (no further input). The flag \<open>g_running\<close>, which a signal
  handler clears, is taken to stay set.
\<close>

fun handle_client :: "server \<Rightarrow> request_io list \<Rightarrow> (server \<times> u8 list list) option" where
  "handle_client sv [] = Some (sv, [])"
| "handle_client sv (io # ios) =
     (case handle_client_step sv io of
        None \<Rightarrow> None
      | Some (sv1, sent, goes_on) \<Rightarrow>
          if goes_on
          then (case handle_client sv1 ios of
                  None \<Rightarrow> None
                | Some (sv2, sents) \<Rightarrow> Some (sv2, sent # sents))
          else Some (sv1, [sent]))"

text \<open>
  Concrete values used to exercise the theorems about the server: a server whose table
  holds handle 1 for the block of \<open>one_block\<close>, surroundings in which every allocation
  succeeds, and a request header for a given command, handle and size.
\<close>

definition one_handle_server :: server where
  "one_handle_server =
     \<lparr>srv_alloc = one_block,
      g_handles = (replicate MAX_HANDLES empty_entry)
        [0 := \<lparr>ent_handle = 1, ent_ptr = 4120, ent_size = 8, ent_in_use = True\<rparr>],
      g_next_handle = 2\<rparr>"

definition fair_env :: env where
  "fair_env =
     \<lparr>host_order = LittleEndian, malloc_payload_ok = True, malloc_block = 4096,
      malloc_scratch_ok = True, calloc_msg_ok = True\<rparr>"

definition request_header :: "u8 \<Rightarrow> u64 \<Rightarrow> u32 \<Rightarrow> ether_msg_header" where
  "request_header cmd hdl sz =
     \<lparr>msg_magic = ETHER_MAGIC, msg_version = ETHER_PROTOCOL_VER, msg_command = cmd,
      msg_flags = 0, msg_handle = hdl, msg_size = sz, msg_reserved = 0\<rparr>"

section \<open>Responses as seen on the wire\<close>

text \<open>
  To state what a handler sends: the header of a response with a given command, handle
  and payload length, and the framed message, that is the 24 serialized header bytes
  followed by the payload.
\<close>

definition response_header :: "u8 \<Rightarrow> u64 \<Rightarrow> u32 \<Rightarrow> ether_msg_header" where
  "response_header cmd hdl sz =
     \<lparr>msg_magic = ETHER_MAGIC, msg_version = ETHER_PROTOCOL_VER, msg_command = cmd,
      msg_flags = 0, msg_handle = hdl, msg_size = sz, msg_reserved = 0\<rparr>"

definition wire_message :: "endian \<Rightarrow> ether_msg_header \<Rightarrow> u8 list \<Rightarrow> u8 list" where
  "wire_message e h payload =
     (case ether_msg_serialize_header e (Some h) (Some (replicate ETHER_HEADER_SIZE 0)) of
        None \<Rightarrow> []
      | Some hb \<Rightarrow> hb) @ payload"

text \<open>
  A request as the client loop receives it: the 24 header bytes of \<open>h\<close> in wire format
  from the first \<open>recv\<close>, and the payload, if any, from the second.
\<close>

definition client_request :: "env \<Rightarrow> ether_msg_header \<Rightarrow> u8 list option \<Rightarrow> request_io" where
  "client_request ev h payload =
     \<lparr>io_env = ev, io_header = Some (wire_message (host_order ev) h []),
      io_payload = payload\<rparr>"

section \<open>Properties of the wire protocol\<close>

lemma low_byte_mask: "(ucast ((x :: 'a::len word) AND 0xFF) :: u8) = ucast x"
proof -
  have "(0xFF :: 'a word) = mask 8"
    by (simp add: mask_eq_exp_minus_1)
  then show ?thesis
    by (simp only: flip: take_bit_eq_mask) (rule bit_word_eqI, simp add: bit_simps)
qed

lemma byte_index_cases32:
  assumes "(n::nat) < 32"
  obtains m where "m < 8" "n = m" | m where "m < 8" "n = 8 + m"
        | m where "m < 8" "n = 16 + m" | m where "m < 8" "n = 24 + m"
proof -
  have "n < 8 \<or> (\<exists>m<8. n = 8 + m) \<or> (\<exists>m<8. n = 16 + m) \<or> (\<exists>m<8. n = 24 + m)"
    using assms by presburger
  then show ?thesis using that by blast
qed

lemma be32_bytes:
  "push_bit 24 (ucast (ucast (drop_bit 24 x) :: u8)) OR
   push_bit 16 (ucast (ucast (drop_bit 16 x) :: u8)) OR
   push_bit 8 (ucast (ucast (drop_bit 8 x) :: u8)) OR ucast (ucast x :: u8) = (x :: u32)"
  (is "?L = _")
proof (rule bit_word_eqI)
  fix n :: nat
  assume "n < LENGTH(32)"
  then have "n < 32" by simp
  then show "bit ?L n = bit x n"
    by (cases rule: byte_index_cases32) (simp_all add: bit_simps)
qed

lemma byte_index_cases64:
  assumes "(n::nat) < 64"
  obtains m where "m < 8" "n = m" | m where "m < 8" "n = 8 + m"
        | m where "m < 8" "n = 16 + m" | m where "m < 8" "n = 24 + m"
        | m where "m < 8" "n = 32 + m" | m where "m < 8" "n = 40 + m"
        | m where "m < 8" "n = 48 + m" | m where "m < 8" "n = 56 + m"
proof -
  have "n < 8 \<or> (\<exists>m<8. n = 8 + m) \<or> (\<exists>m<8. n = 16 + m) \<or> (\<exists>m<8. n = 24 + m)
      \<or> (\<exists>m<8. n = 32 + m) \<or> (\<exists>m<8. n = 40 + m) \<or> (\<exists>m<8. n = 48 + m) \<or> (\<exists>m<8. n = 56 + m)"
    using assms by presburger
  then show ?thesis using that by blast
qed

lemma bswap32_bytes:
  "(ucast (bswap32 x) :: u8) = ucast (drop_bit 24 x)"
  "(ucast (drop_bit 8 (bswap32 x)) :: u8) = ucast (drop_bit 16 x)"
  "(ucast (drop_bit 16 (bswap32 x)) :: u8) = ucast (drop_bit 8 x)"
  "(ucast (drop_bit 24 (bswap32 x)) :: u8) = ucast x"
  unfolding bswap32_def
  by (rule bit_word_eqI, simp add: bit_simps)+

lemma store_htonl:
  "store_u32 e buf off (htonl e x) =
     buf[off := ucast (drop_bit 24 x), off + 1 := ucast (drop_bit 16 x),
         off + 2 := ucast (drop_bit 8 x), off + 3 := ucast x]"
  by (cases e) (simp_all add: store_u32_def htonl_def bswap32_bytes)

lemma bit_u8_high: "8 \<le> n \<Longrightarrow> \<not> bit (a :: u8) n"
  by (auto dest: bit_imp_le_length)

lemma bswap32_le:
  "bswap32 (ucast (a::u8) OR push_bit 8 (ucast (b::u8)) OR push_bit 16 (ucast (c::u8)) OR
            push_bit 24 (ucast (d::u8))) =
   push_bit 24 (ucast a) OR push_bit 16 (ucast b) OR push_bit 8 (ucast c) OR ucast d"
  (is "?L = ?R")
proof (rule bit_word_eqI)
  fix n :: nat
  assume "n < LENGTH(32)"
  then have "n < 32" by simp
  then show "bit ?L n = bit ?R n"
    unfolding bswap32_def
    by (cases rule: byte_index_cases32) (simp_all add: bit_simps bit_u8_high)
qed

lemma ntohl_load:
  "ntohl e (load_u32 e buf off) =
     push_bit 24 (ucast (buf ! off)) OR push_bit 16 (ucast (buf ! (off + 1))) OR
     push_bit 8 (ucast (buf ! (off + 2))) OR ucast (buf ! (off + 3))"
  by (cases e) (simp_all add: load_u32_def ntohl_def bswap32_le)

lemma be64_bytes:
  "push_bit 56 (ucast (ucast (drop_bit 56 h) :: u8)) OR
   push_bit 48 (ucast (ucast (drop_bit 48 h) :: u8)) OR
   push_bit 40 (ucast (ucast (drop_bit 40 h) :: u8)) OR
   push_bit 32 (ucast (ucast (drop_bit 32 h) :: u8)) OR
   push_bit 24 (ucast (ucast (drop_bit 24 h) :: u8)) OR
   push_bit 16 (ucast (ucast (drop_bit 16 h) :: u8)) OR
   push_bit 8 (ucast (ucast (drop_bit 8 h) :: u8)) OR
   ucast (ucast h :: u8) = (h :: u64)"
  (is "?L = _")
proof (rule bit_word_eqI)
  fix n :: nat
  assume "n < LENGTH(64)"
  then have "n < 64" by simp
  then show "bit ?L n = bit h n"
    by (cases rule: byte_index_cases64) (simp_all add: bit_simps)
qed

lemma flags_bytes:
  "(ucast (push_bit 8 (ucast (ucast (ucast (drop_bit 8 (ucast f :: u32)) :: u8) :: u16) :: u32) OR
          (ucast (ucast (ucast f :: u32) :: u8) :: u32)) :: u16) = (f :: u16)"
  (is "?L = _")
proof (rule bit_word_eqI)
  fix n :: nat
  assume "n < LENGTH(16)"
  then have "n < 8 \<or> (\<exists>m<8. n = 8 + m)" by simp presburger
  then show "bit ?L n = bit f n"
    by (auto simp add: bit_simps)
qed

lemma serialize_deserialize:
  assumes "ETHER_HEADER_SIZE \<le> length buf"
  shows "ether_msg_deserialize_header e
           (ether_msg_serialize_header e (Some h) (Some buf)) (Some h0) = Some h"
proof -
  from assms have "buf \<noteq> []"
    by (auto simp add: ETHER_HEADER_SIZE_def)
  with assms show ?thesis
  by (simp add: ether_msg_deserialize_header_def ether_msg_serialize_header_def
      ETHER_HEADER_SIZE_def Let_def store_htonl ntohl_load low_byte_mask
      be32_bytes be64_bytes flags_bytes)
qed

text \<open>
  Claim C2. Serializing any header into a buffer of at least \<open>ETHER_HEADER_SIZE\<close> (24)
  bytes and deserializing that buffer gives back the same header, in all seven fields
  (magic, version, command, flags, handle, size, reserved), whatever the byte order of
  the host and whatever the buffer and the destination header held before.
\<close>

theorem header_roundtrip:
  assumes "ETHER_HEADER_SIZE \<le> length buf"
  shows "ether_msg_deserialize_header e
           (ether_msg_serialize_header e (Some h) (Some buf)) (Some h0) = Some h"
  using assms by (rule serialize_deserialize)


theorem header_roundtrip_witness:
  "ETHER_HEADER_SIZE \<le> length (replicate 24 (0 :: u8)) \<and>
   ether_msg_deserialize_header LittleEndian
     (ether_msg_serialize_header LittleEndian (Some scenario_c_header)
        (Some (replicate 24 0))) (Some zero_header) = Some scenario_c_header"
  using header_roundtrip [of "replicate 24 0" LittleEndian scenario_c_header zero_header]
  by (simp add: ETHER_HEADER_SIZE_def)

section \<open>Properties of the allocator\<close>

lemma get_header_user_ptr [simp]: "get_header (get_user_ptr h) = h"
  by (simp add: get_header_def get_user_ptr_def)

lemma user_ptr_not_null [simp]: "get_user_ptr h \<noteq> NULL"
  by (simp add: get_user_ptr_def NULL_def HEADER_SIZE_def)

lemma freed_not_magic: "BLOCK_FREED \<noteq> BLOCK_MAGIC" "BLOCK_MAGIC \<noteq> BLOCK_FREED"
  by (simp_all add: BLOCK_FREED_def BLOCK_MAGIC_def)

lemma live_not_dangling:
  assumes "live_region s ptr b"
  shows "\<not> dangling s (get_header ptr)"
  using assms by (simp add: live_region_def dangling_def)

lemma live_user_ptr:
  assumes "live_region s ptr b"
  shows "get_user_ptr (get_header ptr) = ptr"
  using assms
  by (auto simp add: live_region_def is_valid_block_def get_header_def get_user_ptr_def
      NULL_def)

text \<open>
  The sum \<open>HEADER_SIZE + size\<close> of \<open>ether_alloc\<close> is the true sum exactly when it stays
  below \<open>2 ^ 64\<close>.
\<close>

lemma total_wraps:
  "(unat ((of_nat HEADER_SIZE :: size_t) + n) < HEADER_SIZE + unat n) =
     (2 ^ 64 \<le> unat n + HEADER_SIZE)"
proof -
  have n: "unat n < 2 ^ 64"
    using unsigned_less [of n, where ?'a = nat] by simp
  have "unat ((of_nat HEADER_SIZE :: size_t) + n) = (HEADER_SIZE + unat n) mod 2 ^ 64"
    by (simp add: unat_word_ariths HEADER_SIZE_def)
  then show ?thesis
    using n by (cases "HEADER_SIZE + unat n < 2 ^ 64") (simp_all add: HEADER_SIZE_def)
qed

lemma ether_alloc_fail: "ether_alloc s n NULL = Some (s, NULL)"
  by (simp add: ether_alloc_def Let_def)

lemma ether_alloc_wraps:
  assumes "hdr \<noteq> NULL" "2 ^ 64 \<le> unat n + HEADER_SIZE"
  shows "ether_alloc s n hdr = None"
proof -
  have "n \<noteq> 0"
    using assms(2) by (auto simp add: HEADER_SIZE_def)
  then show ?thesis
    using assms by (simp add: ether_alloc_def Let_def total_wraps)
qed

lemma ether_alloc_ok:
  assumes "n \<noteq> 0" "hdr \<noteq> NULL" "unat n + HEADER_SIZE < 2 ^ 64"
  obtains s1 where "ether_alloc s n hdr = Some (s1, get_user_ptr hdr)"
    and "heap s1 = (heap s)(hdr \<mapsto>
           \<lparr>blk_magic = BLOCK_MAGIC, blk_flags = FLAG_ALLOCATED, blk_size = n,
            blk_capacity = n, blk_data = replicate (unat n) 0\<rparr>)"
    and "live_region s1 (get_user_ptr hdr)
           \<lparr>blk_magic = BLOCK_MAGIC, blk_flags = FLAG_ALLOCATED, blk_size = n,
            blk_capacity = n, blk_data = replicate (unat n) 0\<rparr>"
    and "sys_freed s1 = sys_freed s"
    and "stderr_log s1 = stderr_log s"
    and "total_allocated (g_stats s1) = total_allocated (g_stats s) + n"
    and "total_freed (g_stats s1) = total_freed (g_stats s)"
    and "current_usage (g_stats s1) = current_usage (g_stats s) + n"
    and "num_allocs (g_stats s1) = num_allocs (g_stats s) + 1"
    and "num_frees (g_stats s1) = num_frees (g_stats s)"
proof -
  have w: "\<not> unat ((of_nat HEADER_SIZE :: size_t) + n) < HEADER_SIZE + unat n"
    using assms(3) by (simp add: total_wraps)
  obtain s1 where al: "ether_alloc s n hdr = Some (s1, get_user_ptr hdr)"
    using assms(1,2) w by (simp add: ether_alloc_def Let_def)
  have s1: "s1 = fst (the (ether_alloc s n hdr))"
    by (simp add: al)
  show ?thesis
  proof (rule that [OF al])
    show "heap s1 = (heap s)(hdr \<mapsto>
           \<lparr>blk_magic = BLOCK_MAGIC, blk_flags = FLAG_ALLOCATED, blk_size = n,
            blk_capacity = n, blk_data = replicate (unat n) 0\<rparr>)"
      and "live_region s1 (get_user_ptr hdr)
           \<lparr>blk_magic = BLOCK_MAGIC, blk_flags = FLAG_ALLOCATED, blk_size = n,
            blk_capacity = n, blk_data = replicate (unat n) 0\<rparr>"
      and "sys_freed s1 = sys_freed s"
      and "stderr_log s1 = stderr_log s"
      and "total_allocated (g_stats s1) = total_allocated (g_stats s) + n"
      and "total_freed (g_stats s1) = total_freed (g_stats s)"
      and "current_usage (g_stats s1) = current_usage (g_stats s) + n"
      and "num_allocs (g_stats s1) = num_allocs (g_stats s) + 1"
      and "num_frees (g_stats s1) = num_frees (g_stats s)"
      unfolding s1 using assms(1,2) w
      by (simp_all add: ether_alloc_def Let_def live_region_def is_valid_block_def
          block_wf_def FLAG_ALLOCATED_def)
  qed
qed

lemma ether_realloc_in_place:
  assumes "live_region s ptr b" "n \<noteq> 0" "n \<le> blk_capacity b"
  shows "ether_realloc s ptr n m =
           Some (s\<lparr>heap := (heap s)(get_header ptr \<mapsto>
                   b\<lparr>blk_size := n,
                     blk_data :=
                       (if blk_size b < n
                        then take (unat (blk_size b)) (blk_data b) @
                             replicate (unat n - unat (blk_size b)) 0 @
                             drop (unat n) (blk_data b)
                        else blk_data b)\<rparr>)\<rparr>, ptr)"
  using assms live_not_dangling [OF assms(1)]
  by (auto simp add: ether_realloc_def live_region_def Let_def unat_sub word_le_nat_alt
      word_less_nat_alt)

text \<open>
  Past the bound the nested \<open>ether_alloc\<close> overruns the storage it obtained, and so
  does a resize that has to move the block.
\<close>

lemma ether_realloc_wraps:
  assumes "live_region s ptr b" "blk_capacity b < n" "m \<noteq> NULL"
    "2 ^ 64 \<le> unat n + HEADER_SIZE"
  shows "ether_realloc s ptr n m = None"
proof -
  have "n \<noteq> 0"
    using assms(4) by (auto simp add: HEADER_SIZE_def)
  then show ?thesis
    using assms(1,2) live_not_dangling [OF assms(1)]
    by (auto simp add: ether_realloc_def live_region_def Let_def
        ether_alloc_wraps [OF assms(3,4)])
qed

lemma ether_free_live:
  assumes "live_region s ptr b"
  shows "ether_free s ptr =
           Some (s\<lparr>heap := (heap s)(get_header ptr := None),
                   g_stats := (g_stats s)
                     \<lparr>total_freed := total_freed (g_stats s) + blk_size b,
                      current_usage := current_usage (g_stats s) - blk_size b,
                      num_frees := num_frees (g_stats s) + 1\<rparr>,
                   sys_freed := get_header ptr # sys_freed s\<rparr>)"
  using assms live_not_dangling [OF assms]
  by (auto simp add: ether_free_def sys_free_def live_region_def Let_def is_valid_block_def
      freed_not_magic)

lemma ether_free_releases:
  assumes "live_region s ptr b"
  shows "\<exists>s1. ether_free s ptr = Some s1 \<and> released_region s1 ptr"
  using assms
  by (auto simp add: ether_free_live [OF assms] released_region_def dangling_def
      live_region_def is_valid_block_def)

lemma live_region_update:
  assumes "live_region s ptr b" "blk_magic b' = blk_magic b" "blk_flags b' = blk_flags b"
    "block_wf b'"
  shows "live_region (s\<lparr>heap := (heap s)(get_header ptr \<mapsto> b')\<rparr>) ptr b'"
  using assms
  by (auto simp add: live_region_def is_valid_block_def)

lemma one_block_live: "live_region one_block 4120 one_block_contents"
  by (simp add: one_block_def live_region_def is_valid_block_def block_wf_def get_header_def
      HEADER_SIZE_def NULL_def) (simp add: one_block_contents_def FLAG_ALLOCATED_def)

text \<open>
  The state \<open>one_block\<close> is the one that an allocation of 8 bytes and a write of 8 bytes
  reach from the initial state.
\<close>

lemma one_block_reached:
  "(case ether_alloc init_allocator 8 4096 of
      None \<Rightarrow> None
    | Some (s1, p) \<Rightarrow> ether_write s1 p (Some [1, 2, 3, 4, 5, 6, 7, 8]) 8) =
   Some (one_block, ETHER_OK)"
  by (simp add: one_block_def one_block_contents_def ether_write_def ether_alloc_def
      init_allocator_def zero_stats_def is_valid_block_def dangling_def get_header_def
      get_user_ptr_def HEADER_SIZE_def NULL_def Let_def FLAG_ALLOCATED_def)

text \<open>
  Claim C5. On a live region, for every \<open>len\<close> up to the region's size, a write of
  \<open>len\<close> bytes of \<open>D\<close> succeeds, and a read of \<open>len\<close> bytes that follows succeeds
  and puts the first \<open>len\<close> bytes of \<open>D\<close> at the start of the caller's buffer, the rest
  of the buffer untouched; when \<open>D\<close> and the buffer are exactly \<open>len\<close> bytes long, the
  buffer read back equals \<open>D\<close>.
\<close>

theorem write_read_roundtrip:
  assumes "live_region s ptr b" and "len \<le> blk_size b"
    and "unat len \<le> length D" and "unat len \<le> length buf"
  shows "ether_size s ptr = Some (blk_size b) \<and>
         (case ether_write s ptr (Some D) len of
            None \<Rightarrow> False
          | Some (s1, rc) \<Rightarrow>
              rc = ETHER_OK \<and>
              ether_read s1 ptr (Some buf) len =
                Some (ETHER_OK, Some (take (unat len) D @ drop (unat len) buf)) \<and>
              (length D = unat len \<and> length buf = unat len \<longrightarrow>
                 ether_read s1 ptr (Some buf) len = Some (ETHER_OK, Some D)))"
  using assms
  by (auto simp add: live_region_def ether_write_def ether_read_def ether_size_def
      is_valid_block_def dangling_def Let_def NULL_def not_less)

theorem write_read_roundtrip_witness:
  "live_region one_block 4120 one_block_contents \<and>
   (3 :: size_t) \<le> blk_size one_block_contents \<and>
   unat (3 :: size_t) \<le> length [1, 2, 3 :: u8] \<and>
   unat (3 :: size_t) \<le> length [9, 9, 9 :: u8] \<and>
   ether_size one_block 4120 = Some 8 \<and>
   (case ether_write one_block 4120 (Some [1, 2, 3]) 3 of
      None \<Rightarrow> False
    | Some (s1, rc) \<Rightarrow>
        rc = ETHER_OK \<and> ether_read s1 4120 (Some [9, 9, 9]) 3 = Some (ETHER_OK, Some [1, 2, 3]))"
proof -
  have c: "blk_size one_block_contents = 8"
    by (simp add: one_block_contents_def)
  show ?thesis
    using one_block_live
      write_read_roundtrip [OF one_block_live, of 3 "[1, 2, 3]" "[9, 9, 9]"]
    by (auto simp add: c split: option.splits)
qed

text \<open>
  Claim C6. A second release of a region does not do what the claim says. The first
  release hands the header to \<open>free\<close>, so the tag \<open>BLOCK_FREED\<close> written into it is no
  longer the program's to read: the second release reads released storage and has no
  defined behaviour, whatever the counters and \<open>stderr\<close> then show. And when \<open>malloc\<close>
  has handed the same address out again in between, the second release passes the
  validity check, releases the new owner's block, moves the counters a second time and
  prints nothing.
\<close>

theorem double_release_undefined:
  "(released_region s ptr \<longrightarrow> ether_free s ptr = None) \<and>
   (live_region s ptr b \<longrightarrow>
      (case ether_free s ptr of
         None \<Rightarrow> False
       | Some s1 \<Rightarrow>
           released_region s1 ptr \<and> ether_free s1 ptr = None \<and>
           (n \<noteq> 0 \<and> unat n + HEADER_SIZE < 2 ^ 64 \<longrightarrow>
              (case ether_alloc s1 n (get_header ptr) of
                 None \<Rightarrow> False
               | Some (s2, p2) \<Rightarrow>
                   p2 = ptr \<and>
                   (case ether_free s2 ptr of
                      None \<Rightarrow> False
                    | Some s3 \<Rightarrow>
                        heap s3 (get_header ptr) = None \<and>
                        total_freed (g_stats s3) = total_freed (g_stats s) + blk_size b + n \<and>
                        num_frees (g_stats s3) = num_frees (g_stats s) + 2 \<and>
                        sys_freed s3 = get_header ptr # get_header ptr # sys_freed s \<and>
                        stderr_log s3 = stderr_log s)))))"
proof (intro conjI impI)
  assume "released_region s ptr"
  then show "ether_free s ptr = None"
    by (simp add: released_region_def ether_free_def Let_def)
next
  assume live: "live_region s ptr b"
  define s1 where "s1 =
    s\<lparr>heap := (heap s)(get_header ptr := None),
      g_stats := (g_stats s)
        \<lparr>total_freed := total_freed (g_stats s) + blk_size b,
         current_usage := current_usage (g_stats s) - blk_size b,
         num_frees := num_frees (g_stats s) + 1\<rparr>,
      sys_freed := get_header ptr # sys_freed s\<rparr>"
  have fr: "ether_free s ptr = Some s1"
    by (simp add: ether_free_live [OF live] s1_def)
  have hn: "get_header ptr \<noteq> NULL" "ptr \<noteq> NULL"
    using live by (auto simp add: live_region_def is_valid_block_def)
  have rel: "released_region s1 ptr"
    using hn by (simp add: released_region_def dangling_def s1_def)
  have und: "ether_free s1 ptr = None"
    using rel by (simp add: released_region_def ether_free_def Let_def)
  have reuse: "case ether_alloc s1 n (get_header ptr) of
                 None \<Rightarrow> False
               | Some (s2, p2) \<Rightarrow>
                   p2 = ptr \<and>
                   (case ether_free s2 ptr of
                      None \<Rightarrow> False
                    | Some s3 \<Rightarrow>
                        heap s3 (get_header ptr) = None \<and>
                        total_freed (g_stats s3) = total_freed (g_stats s) + blk_size b + n \<and>
                        num_frees (g_stats s3) = num_frees (g_stats s) + 2 \<and>
                        sys_freed s3 = get_header ptr # get_header ptr # sys_freed s \<and>
                        stderr_log s3 = stderr_log s)"
    if n: "n \<noteq> 0 \<and> unat n + HEADER_SIZE < 2 ^ 64"
  proof -
    from n have n0: "n \<noteq> 0" and nb: "unat n + HEADER_SIZE < 2 ^ 64"
      by simp_all
    obtain s2 where al: "ether_alloc s1 n (get_header ptr) = Some (s2, get_user_ptr (get_header ptr))"
      and live2: "live_region s2 (get_user_ptr (get_header ptr))
           \<lparr>blk_magic = BLOCK_MAGIC, blk_flags = FLAG_ALLOCATED, blk_size = n,
            blk_capacity = n, blk_data = replicate (unat n) 0\<rparr>"
      and st2: "sys_freed s2 = sys_freed s1" "stderr_log s2 = stderr_log s1"
        "total_freed (g_stats s2) = total_freed (g_stats s1)"
        "num_frees (g_stats s2) = num_frees (g_stats s1)"
      using ether_alloc_ok [OF n0 hn(1) nb, of s1] by metis
    have up: "get_user_ptr (get_header ptr) = ptr"
      by (rule live_user_ptr [OF live])
    show ?thesis
      using live2 st2
      by (simp add: al up ether_free_live [OF live2 [unfolded up]]) (simp add: s1_def)
  qed
  show "case ether_free s ptr of
         None \<Rightarrow> False
       | Some s1 \<Rightarrow>
           released_region s1 ptr \<and> ether_free s1 ptr = None \<and>
           (n \<noteq> 0 \<and> unat n + HEADER_SIZE < 2 ^ 64 \<longrightarrow>
              (case ether_alloc s1 n (get_header ptr) of
                 None \<Rightarrow> False
               | Some (s2, p2) \<Rightarrow>
                   p2 = ptr \<and>
                   (case ether_free s2 ptr of
                      None \<Rightarrow> False
                    | Some s3 \<Rightarrow>
                        heap s3 (get_header ptr) = None \<and>
                        total_freed (g_stats s3) = total_freed (g_stats s) + blk_size b + n \<and>
                        num_frees (g_stats s3) = num_frees (g_stats s) + 2 \<and>
                        sys_freed s3 = get_header ptr # get_header ptr # sys_freed s \<and>
                        stderr_log s3 = stderr_log s)))"
    using rel und reuse by (simp add: fr)
qed

theorem double_release_undefined_witness:
  "live_region one_block 4120 one_block_contents \<and>
   (case ether_free one_block 4120 of
      None \<Rightarrow> False
    | Some s1 \<Rightarrow>
        released_region s1 4120 \<and> ether_free s1 4120 = None \<and>
        (case ether_alloc s1 8 4096 of
           None \<Rightarrow> False
         | Some (s2, p2) \<Rightarrow>
             p2 = 4120 \<and>
             (case ether_free s2 4120 of
                None \<Rightarrow> False
              | Some s3 \<Rightarrow>
                  heap s3 4096 = None \<and> total_freed (g_stats s3) = 16 \<and>
                  num_frees (g_stats s3) = 2 \<and> sys_freed s3 = [4096, 4096] \<and>
                  stderr_log s3 = [])))"
proof -
  have c: "blk_size one_block_contents = 8"
    by (simp add: one_block_contents_def)
  have g: "get_header 4120 = 4096"
    by (simp add: get_header_def HEADER_SIZE_def)
  have o: "total_freed (g_stats one_block) = 0" "num_frees (g_stats one_block) = 0"
    "sys_freed one_block = []" "stderr_log one_block = []"
    by (simp_all add: one_block_def)
  have n: "(8 :: size_t) \<noteq> 0 \<and> unat (8 :: size_t) + HEADER_SIZE < 2 ^ 64"
    by (simp add: HEADER_SIZE_def)
  obtain s1 where fr: "ether_free one_block 4120 = Some s1" and rel: "released_region s1 4120"
    using ether_free_releases [OF one_block_live] by blast
  have u: "ether_free s1 4120 = None"
    using double_release_undefined [where s = s1 and ptr = 4120, THEN conjunct1] rel by simp
  show ?thesis
    using one_block_live n
      double_release_undefined [where s = one_block and ptr = 4120
        and b = one_block_contents and n = 8, THEN conjunct2]
    by (auto simp add: fr c g o split: option.splits)
qed

text \<open>
  Claim C7. \<open>ether_realloc\<close> with a null pointer is \<open>ether_alloc\<close>; with size 0 it is
  \<open>ether_free\<close> and returns no region; with a new size within the capacity it returns
  the same pointer, sets the size, zeroes newly exposed bytes and leaves everything else
  in place; with a larger size \<open>n\<close> for which \<open>HEADER_SIZE + n\<close> does not wrap and a
  successful \<open>malloc\<close> it returns a new live region holding the first
  \<open>min(old_size, new_size)\<close> old bytes followed by zeroes, and the old region is
  released; when that \<open>malloc\<close> fails the state is unchanged and the result is \<open>NULL\<close>.
\<close>

theorem resize_cases:
  "ether_realloc s NULL n m = ether_alloc s n m \<and>
   (ptr \<noteq> NULL \<longrightarrow>
     ether_realloc s ptr 0 m = map_option (\<lambda>s1. (s1, NULL)) (ether_free s ptr)) \<and>
   (live_region s ptr b \<and> n \<noteq> 0 \<and> n \<le> blk_capacity b \<longrightarrow>
     (case ether_realloc s ptr n m of
        None \<Rightarrow> False
      | Some (s1, p) \<Rightarrow>
          p = ptr \<and>
          ether_size s1 ptr = Some n \<and>
          live_region s1 ptr
            (b\<lparr>blk_size := n,
               blk_data :=
                 (if blk_size b < n
                  then take (unat (blk_size b)) (blk_data b) @
                       replicate (unat n - unat (blk_size b)) 0 @ drop (unat n) (blk_data b)
                  else blk_data b)\<rparr>) \<and>
          (\<forall>h. h \<noteq> get_header ptr \<longrightarrow> heap s1 h = heap s h) \<and>
          sys_freed s1 = sys_freed s)) \<and>
   (live_region s ptr b \<and> blk_capacity b < n \<and> unat n + HEADER_SIZE < 2 ^ 64 \<and>
    m \<noteq> NULL \<and> m \<noteq> get_header ptr \<longrightarrow>
     (case ether_realloc s ptr n m of
        None \<Rightarrow> False
      | Some (s1, p) \<Rightarrow>
          p = get_user_ptr m \<and>
          live_region s1 (get_user_ptr m)
            \<lparr>blk_magic = BLOCK_MAGIC, blk_flags = FLAG_ALLOCATED, blk_size = n,
             blk_capacity = n,
             blk_data = take (unat (min (blk_size b) n)) (blk_data b) @
                        replicate (unat n - unat (min (blk_size b) n)) 0\<rparr> \<and>
          released_region s1 ptr \<and>
          sys_freed s1 = get_header ptr # sys_freed s)) \<and>
   (live_region s ptr b \<and> blk_capacity b < n \<longrightarrow>
     ether_realloc s ptr n NULL = Some (s, NULL))"
proof (intro conjI impI)
  show "ether_realloc s NULL n m = ether_alloc s n m"
    by (simp add: ether_realloc_def)
next
  assume "ptr \<noteq> NULL"
  then show "ether_realloc s ptr 0 m = map_option (\<lambda>s1. (s1, NULL)) (ether_free s ptr)"
    by (simp add: ether_realloc_def split: option.splits)
next
  assume a: "live_region s ptr b \<and> n \<noteq> 0 \<and> n \<le> blk_capacity b"
  then have live: "live_region s ptr b" and n: "n \<noteq> 0" "n \<le> blk_capacity b"
    by simp_all
  show "case ether_realloc s ptr n m of
        None \<Rightarrow> False
      | Some (s1, p) \<Rightarrow>
          p = ptr \<and>
          ether_size s1 ptr = Some n \<and>
          live_region s1 ptr
            (b\<lparr>blk_size := n,
               blk_data :=
                 (if blk_size b < n
                  then take (unat (blk_size b)) (blk_data b) @
                       replicate (unat n - unat (blk_size b)) 0 @ drop (unat n) (blk_data b)
                  else blk_data b)\<rparr>) \<and>
          (\<forall>h. h \<noteq> get_header ptr \<longrightarrow> heap s1 h = heap s h) \<and>
          sys_freed s1 = sys_freed s"
    using live n
    by (auto simp add: ether_realloc_in_place [OF live n] live_region_def is_valid_block_def
        ether_size_def dangling_def block_wf_def Let_def word_le_nat_alt word_less_nat_alt)
next
  assume a: "live_region s ptr b \<and> blk_capacity b < n \<and> unat n + HEADER_SIZE < 2 ^ 64 \<and>
    m \<noteq> NULL \<and> m \<noteq> get_header ptr"
  then have live: "live_region s ptr b" and cap: "blk_capacity b < n"
    and nb: "unat n + HEADER_SIZE < 2 ^ 64" and m: "m \<noteq> NULL" "m \<noteq> get_header ptr"
    by simp_all
  have w: "\<not> unat ((of_nat HEADER_SIZE :: size_t) + n) < HEADER_SIZE + unat n"
    using nb by (simp add: total_wraps)
  have n0: "n \<noteq> 0"
    using cap by auto
  show "case ether_realloc s ptr n m of
        None \<Rightarrow> False
      | Some (s1, p) \<Rightarrow>
          p = get_user_ptr m \<and>
          live_region s1 (get_user_ptr m)
            \<lparr>blk_magic = BLOCK_MAGIC, blk_flags = FLAG_ALLOCATED, blk_size = n,
             blk_capacity = n,
             blk_data = take (unat (min (blk_size b) n)) (blk_data b) @
                        replicate (unat n - unat (min (blk_size b) n)) 0\<rparr> \<and>
          released_region s1 ptr \<and>
          sys_freed s1 = get_header ptr # sys_freed s"
    using live cap m w n0 live_not_dangling [OF live]
    by (auto simp add: ether_realloc_def live_region_def is_valid_block_def released_region_def
        dangling_def block_wf_def Let_def ether_alloc_def memcpy_blocks_def ether_free_def
        sys_free_def word_le_nat_alt word_less_nat_alt freed_not_magic min_def
        FLAG_ALLOCATED_def split: option.splits)
next
  assume "live_region s ptr b \<and> blk_capacity b < n"
  then have live: "live_region s ptr b" and cap: "blk_capacity b < n"
    by simp_all
  show "ether_realloc s ptr n NULL = Some (s, NULL)"
    using live cap live_not_dangling [OF live]
    by (auto simp add: ether_realloc_def live_region_def Let_def ether_alloc_fail)
qed

theorem resize_cases_witness:
  "live_region one_block 4120 one_block_contents \<and>
   unat (16 :: size_t) + HEADER_SIZE < 2 ^ 64 \<and>
   ether_realloc one_block NULL 5 8192 = ether_alloc one_block 5 8192 \<and>
   ether_realloc one_block 4120 0 8192 =
     map_option (\<lambda>s1. (s1, NULL)) (ether_free one_block 4120) \<and>
   (case ether_realloc one_block 4120 4 8192 of
      None \<Rightarrow> False
    | Some (s1, p) \<Rightarrow> p = 4120 \<and> ether_size s1 4120 = Some 4 \<and> sys_freed s1 = []) \<and>
   (case ether_realloc one_block 4120 16 8192 of
      None \<Rightarrow> False
    | Some (s1, p) \<Rightarrow>
        p = 8216 \<and>
        live_region s1 8216
          \<lparr>blk_magic = BLOCK_MAGIC, blk_flags = FLAG_ALLOCATED, blk_size = 16,
           blk_capacity = 16,
           blk_data = [1, 2, 3, 4, 5, 6, 7, 8, 0, 0, 0, 0, 0, 0, 0, 0]\<rparr> \<and>
        released_region s1 4120 \<and> sys_freed s1 = [4096]) \<and>
   ether_realloc one_block 4120 16 NULL = Some (one_block, NULL)"
proof -
  have c: "blk_capacity one_block_contents = 8" "blk_size one_block_contents = 8"
    "blk_data one_block_contents = [1, 2, 3, 4, 5, 6, 7, 8]"
    by (simp_all add: one_block_contents_def)
  have f: "sys_freed one_block = []"
    by (simp add: one_block_def)
  have r: "replicate 8 (0 :: u8) = [0, 0, 0, 0, 0, 0, 0, 0]"
    by (simp add: numeral_eq_Suc)
  have nb: "unat (16 :: size_t) + HEADER_SIZE < 2 ^ 64"
    by (simp add: HEADER_SIZE_def)
  show ?thesis
    using one_block_live nb
      resize_cases [of one_block 5 8192 4120 one_block_contents]
      resize_cases [of one_block 4 8192 4120 one_block_contents]
      resize_cases [of one_block 16 8192 4120 one_block_contents]
    by (auto simp add: c f r NULL_def get_header_def get_user_ptr_def HEADER_SIZE_def
        split: option.splits)
qed

text \<open>
  Claim C9. A resize in place changes no statistics counter. Hence, for \<open>n > m > 0\<close>
  with \<open>HEADER_SIZE + n\<close> not wrapping, allocating \<open>n\<close> bytes, resizing in place to \<open>m\<close>
  and releasing leaves \<open>current_usage\<close> exactly \<open>n - m\<close> above where it was (in 64-bit
  arithmetic), since the release subtracts the current \<open>m\<close>, not the \<open>n\<close> that the
  allocation added.
\<close>

theorem inplace_resize_leaks_usage:
  "(live_region s ptr b \<and> k \<noteq> 0 \<and> k \<le> blk_capacity b \<longrightarrow>
      (case ether_realloc s ptr k mm of
         None \<Rightarrow> False
       | Some (s1, p) \<Rightarrow> g_stats s1 = g_stats s)) \<and>
   (m \<noteq> 0 \<and> m < n \<and> unat n + HEADER_SIZE < 2 ^ 64 \<and> hdr \<noteq> NULL \<longrightarrow>
      (case ether_alloc s n hdr of
         None \<Rightarrow> False
       | Some (s1, p) \<Rightarrow>
           (case ether_realloc s1 p m hdr2 of
              None \<Rightarrow> False
            | Some (s2, p2) \<Rightarrow>
                p \<noteq> NULL \<and> p2 = p \<and> g_stats s2 = g_stats s1 \<and>
                sys_freed s2 = sys_freed s \<and>
                (case ether_free s2 p2 of
                   None \<Rightarrow> False
                 | Some s3 \<Rightarrow>
                     current_usage (g_stats s3) = current_usage (g_stats s) + (n - m) \<and>
                     total_freed (g_stats s3) = total_freed (g_stats s) + m \<and>
                     sys_freed s3 = hdr # sys_freed s))))"
proof (intro conjI impI)
  assume "live_region s ptr b \<and> k \<noteq> 0 \<and> k \<le> blk_capacity b"
  then have "live_region s ptr b" "k \<noteq> 0" "k \<le> blk_capacity b"
    by simp_all
  then show "case ether_realloc s ptr k mm of
         None \<Rightarrow> False
       | Some (s1, p) \<Rightarrow> g_stats s1 = g_stats s"
    by (simp add: ether_realloc_in_place [of s ptr b k mm])
next
  assume a: "m \<noteq> 0 \<and> m < n \<and> unat n + HEADER_SIZE < 2 ^ 64 \<and> hdr \<noteq> NULL"
  then have n: "n \<noteq> 0" and nb: "unat n + HEADER_SIZE < 2 ^ 64" and hdr: "hdr \<noteq> NULL"
    by auto
  define p where "p = get_user_ptr hdr"
  define b0 where "b0 = \<lparr>blk_magic = BLOCK_MAGIC, blk_flags = FLAG_ALLOCATED, blk_size = n,
            blk_capacity = n, blk_data = replicate (unat n) 0\<rparr>"
  define b1 where "b1 = b0\<lparr>blk_size := m, blk_data := blk_data b0\<rparr>"
  obtain s1 where al: "ether_alloc s n hdr = Some (s1, p)"
    and live1: "live_region s1 p b0"
    and st1: "current_usage (g_stats s1) = current_usage (g_stats s) + n"
      "total_freed (g_stats s1) = total_freed (g_stats s)" "sys_freed s1 = sys_freed s"
    unfolding p_def b0_def using ether_alloc_ok [OF n hdr nb, of s] by metis
  define s2 where "s2 = s1\<lparr>heap := (heap s1)(get_header p \<mapsto> b1)\<rparr>"
  have mle: "m \<le> blk_capacity b0" "\<not> blk_size b0 < m"
    using a by (auto simp add: b0_def)
  have re: "ether_realloc s1 p m hdr2 = Some (s2, p)"
    using ether_realloc_in_place [OF live1 _ mle(1), of hdr2] a mle(2)
    by (simp add: s2_def b1_def)
  have live2: "live_region s2 p b1"
    unfolding s2_def
    using a by (intro live_region_update [OF live1])
      (simp_all add: b1_def b0_def block_wf_def word_le_nat_alt word_less_nat_alt)
  have fr: "case ether_free s2 p of
              None \<Rightarrow> False
            | Some s3 \<Rightarrow>
                current_usage (g_stats s3) = current_usage (g_stats s) + (n - m) \<and>
                total_freed (g_stats s3) = total_freed (g_stats s) + m \<and>
                sys_freed s3 = hdr # sys_freed s"
    unfolding ether_free_live [OF live2]
    by (simp add: s2_def st1 b1_def b0_def p_def)
  show "case ether_alloc s n hdr of
         None \<Rightarrow> False
       | Some (s1, p) \<Rightarrow>
           (case ether_realloc s1 p m hdr2 of
              None \<Rightarrow> False
            | Some (s2, p2) \<Rightarrow>
                p \<noteq> NULL \<and> p2 = p \<and> g_stats s2 = g_stats s1 \<and>
                sys_freed s2 = sys_freed s \<and>
                (case ether_free s2 p2 of
                   None \<Rightarrow> False
                 | Some s3 \<Rightarrow>
                     current_usage (g_stats s3) = current_usage (g_stats s) + (n - m) \<and>
                     total_freed (g_stats s3) = total_freed (g_stats s) + m \<and>
                     sys_freed s3 = hdr # sys_freed s))"
    using fr by (simp add: al re) (simp add: s2_def st1 p_def)
qed

theorem inplace_resize_leaks_usage_witness:
  "live_region one_block 4120 one_block_contents \<and>
   (case ether_realloc one_block 4120 4 0 of
      None \<Rightarrow> False
    | Some (s1, p) \<Rightarrow> g_stats s1 = g_stats one_block) \<and>
   (3 :: size_t) \<noteq> 0 \<and> (3 :: size_t) < 8 \<and> unat (8 :: size_t) + HEADER_SIZE < 2 ^ 64 \<and>
   (4096 :: addr) \<noteq> NULL \<and>
   current_usage (g_stats init_allocator) = 0 \<and>
   (case ether_alloc init_allocator 8 4096 of
      None \<Rightarrow> False
    | Some (s1, p) \<Rightarrow>
        p = 4120 \<and>
        (case ether_realloc s1 4120 3 0 of
           None \<Rightarrow> False
         | Some (s2, p2) \<Rightarrow>
             p2 = 4120 \<and>
             (case ether_free s2 4120 of
                None \<Rightarrow> False
              | Some s3 \<Rightarrow> current_usage (g_stats s3) = 5)))"
proof -
  have c: "blk_capacity one_block_contents = 8"
    by (simp add: one_block_contents_def)
  have z: "current_usage (g_stats init_allocator) = 0"
    by (simp add: init_allocator_def zero_stats_def)
  have nb: "unat (8 :: size_t) + HEADER_SIZE < 2 ^ 64"
    by (simp add: HEADER_SIZE_def)
  have p: "\<exists>s1. ether_alloc init_allocator 8 4096 = Some (s1, 4120)"
    by (simp add: ether_alloc_def NULL_def get_user_ptr_def HEADER_SIZE_def Let_def)
  have A: "case ether_realloc one_block 4120 4 0 of
      None \<Rightarrow> False
    | Some (s1, p) \<Rightarrow> g_stats s1 = g_stats one_block"
    using one_block_live
      inplace_resize_leaks_usage [where s = one_block and ptr = 4120
        and b = one_block_contents and k = 4 and mm = 0, THEN conjunct1]
    by (simp add: c)
  obtain s1 where al: "ether_alloc init_allocator 8 4096 = Some (s1, 4120)"
    using p by blast
  have T: "case ether_realloc s1 4120 3 0 of
             None \<Rightarrow> False
           | Some (s2, p2) \<Rightarrow>
               (4120 :: addr) \<noteq> NULL \<and> p2 = 4120 \<and> g_stats s2 = g_stats s1 \<and>
               sys_freed s2 = sys_freed init_allocator \<and>
               (case ether_free s2 p2 of
                  None \<Rightarrow> False
                | Some s3 \<Rightarrow>
                    current_usage (g_stats s3) =
                      current_usage (g_stats init_allocator) + (8 - 3) \<and>
                    total_freed (g_stats s3) = total_freed (g_stats init_allocator) + 3 \<and>
                    sys_freed s3 = 4096 # sys_freed init_allocator)"
    using nb inplace_resize_leaks_usage [where s = init_allocator and m = 3 and n = 8
        and hdr = 4096 and ?hdr2.0 = 0, THEN conjunct2]
    by (simp add: al NULL_def)
  obtain s2 p2 where re: "ether_realloc s1 4120 3 0 = Some (s2, p2)"
    using T by (cases "ether_realloc s1 4120 3 0") auto
  have p2: "p2 = 4120"
    using T by (simp add: re)
  have T2: "case ether_free s2 4120 of
              None \<Rightarrow> False
            | Some s3 \<Rightarrow>
                current_usage (g_stats s3) =
                  current_usage (g_stats init_allocator) + (8 - 3) \<and>
                total_freed (g_stats s3) = total_freed (g_stats init_allocator) + 3 \<and>
                sys_freed s3 = 4096 # sys_freed init_allocator"
    using T by (simp add: re p2)
  obtain s3 where fr: "ether_free s2 4120 = Some s3"
    using T2 by (cases "ether_free s2 4120") auto
  have u: "current_usage (g_stats s3) = 5"
    using T2 by (simp add: fr z)
  have B: "case ether_alloc init_allocator 8 4096 of
      None \<Rightarrow> False
    | Some (s1, p) \<Rightarrow>
        p = 4120 \<and>
        (case ether_realloc s1 4120 3 0 of
           None \<Rightarrow> False
         | Some (s2, p2) \<Rightarrow>
             p2 = 4120 \<and>
             (case ether_free s2 4120 of
                None \<Rightarrow> False
              | Some s3 \<Rightarrow> current_usage (g_stats s3) = 5))"
    by (simp add: al re p2 fr u)
  with A one_block_live z nb show ?thesis
    by (simp add: NULL_def)
qed

section \<open>Properties of the server\<close>

lemma length_store_u32 [simp]: "length (store_u32 e buf off w) = length buf"
  by (cases e) (simp_all add: store_u32_def)

lemma serialize_Some:
  "\<exists>hb. ether_msg_serialize_header e (Some h) (Some buf) = Some hb \<and> length hb = length buf"
  by (simp add: ether_msg_serialize_header_def Let_def)

lemma length_wire_message:
  "length (wire_message e h payload) = ETHER_HEADER_SIZE + length payload"
  using serialize_Some [of e h "replicate ETHER_HEADER_SIZE 0"]
  by (auto simp add: wire_message_def)

lemma wire_message_split:
  "take ETHER_HEADER_SIZE (wire_message e h payload) = wire_message e h []"
  "drop ETHER_HEADER_SIZE (wire_message e h payload) = payload"
  using serialize_Some [of e h "replicate ETHER_HEADER_SIZE 0"]
  by (auto simp add: wire_message_def)

lemma wire_message_decode:
  "ether_msg_deserialize_header e (Some (wire_message e h [])) (Some h0) = Some h"
proof -
  obtain hb where hb: "ether_msg_serialize_header e (Some h) (Some (replicate ETHER_HEADER_SIZE 0)) = Some hb"
    using serialize_Some by blast
  have "ether_msg_deserialize_header e
     (ether_msg_serialize_header e (Some h) (Some (replicate ETHER_HEADER_SIZE 0))) (Some h0) = Some h"
    by (rule serialize_deserialize) simp
  then show ?thesis
    by (simp add: wire_message_def hb)
qed

lemma send_response_no_payload:
  assumes "calloc_msg_ok ev"
  shows "send_response ev cmd hdl None 0 = wire_message (host_order ev) (response_header cmd hdl 0) []"
  using assms serialize_Some [of "host_order ev" "response_header cmd hdl 0" "replicate ETHER_HEADER_SIZE 0"]
  by (auto simp add: send_response_def ether_msg_create_def wire_message_def response_header_def
      ETHER_MAX_PAYLOAD_def Let_def)

lemma send_response_payload:
  assumes "calloc_msg_ok ev" "unat n \<le> ETHER_MAX_PAYLOAD" "unat n \<le> length d"
  shows "send_response ev cmd hdl (Some d) n =
           wire_message (host_order ev) (response_header cmd hdl (ucast n)) (take (unat n) d)"
  using assms serialize_Some [of "host_order ev" "response_header cmd hdl (ucast n)" "replicate ETHER_HEADER_SIZE 0"]
  by (auto simp add: send_response_def ether_msg_create_def wire_message_def response_header_def
      Let_def unat_gt_0 word_less_nat_alt)

lemma step_request:
  "handle_client_step sv (client_request ev h payload) =
     (if \<not> ether_msg_validate (Some h) then Some (sv, [], True)
      else if msg_size h > 0 \<and> (\<not> malloc_payload_ok ev \<or> payload = None)
      then Some (sv, [], False)
      else
        map_option (\<lambda>r. (fst r, snd r, True))
          (if msg_command h = ETHER_CMD_PING then Some (sv, handle_ping ev)
           else if msg_command h = ETHER_CMD_ALLOC then handle_alloc ev sv h
           else if msg_command h = ETHER_CMD_FREE then handle_free ev sv h
           else if msg_command h = ETHER_CMD_WRITE
           then handle_write ev sv h (if msg_size h > 0 then payload else None)
           else if msg_command h = ETHER_CMD_READ then handle_read ev sv h
           else Some (sv, send_response ev ETHER_CMD_ERROR 0 None 0)))"
  by (auto simp add: handle_client_step_def client_request_def Let_def wire_message_decode
      case_prod_unfold split: option.splits)

lemma cmd_distinct:
  "ETHER_CMD_ALLOC \<noteq> ETHER_CMD_PING" "ETHER_CMD_WRITE \<noteq> ETHER_CMD_PING"
  "ETHER_CMD_WRITE \<noteq> ETHER_CMD_ALLOC" "ETHER_CMD_WRITE \<noteq> ETHER_CMD_FREE"
  "ETHER_CMD_READ \<noteq> ETHER_CMD_PING" "ETHER_CMD_READ \<noteq> ETHER_CMD_ALLOC"
  "ETHER_CMD_READ \<noteq> ETHER_CMD_FREE" "ETHER_CMD_READ \<noteq> ETHER_CMD_WRITE"
  "ETHER_CMD_FREE \<noteq> ETHER_CMD_PING" "ETHER_CMD_FREE \<noteq> ETHER_CMD_ALLOC"
  by (simp_all add: ETHER_CMD_ALLOC_def ETHER_CMD_PING_def ETHER_CMD_WRITE_def
      ETHER_CMD_FREE_def ETHER_CMD_READ_def)

lemma request_valid:
  "unat n \<le> ETHER_MAX_PAYLOAD \<Longrightarrow> ether_msg_validate (Some (request_header c h n))"
  by (simp add: ether_msg_validate_def request_header_def)

text \<open>
  Claim C3. A READ on a live handle whose size field exceeds the block size stored in
  the table is not an error: the length is capped to the stored size, the server state
  is unchanged, and the response is an OK message for the same handle whose size field
  and payload length are the stored size, the payload being the first bytes of the
  block. (The scratch buffer and the response message must be allocatable, and the
  stored size within the payload bound, as it is for every size ALLOC can store.) The
  same holds of a whole pass of the client loop on such a request, once its header has
  passed validation and its payload bytes have been received.
\<close>

theorem read_caps_to_block_size:
  assumes "lookup_handle sv (msg_handle header) = Some (ptr, block_size)"
    and "live_region (srv_alloc sv) ptr b"
    and "block_size \<le> blk_size b"
    and "block_size < ucast (msg_size header)"
    and "unat block_size \<le> ETHER_MAX_PAYLOAD"
    and "malloc_scratch_ok ev" and "calloc_msg_ok ev"
  shows "handle_read ev sv header =
           Some (sv, wire_message (host_order ev)
                       (response_header ETHER_CMD_OK (msg_handle header) (ucast block_size))
                       (take (unat block_size) (blk_data b))) \<and>
         length (take (unat block_size) (blk_data b)) = unat block_size \<and>
         (case handle_read ev sv header of
            None \<Rightarrow> False
          | Some (sv1, sent) \<Rightarrow>
              ether_msg_deserialize_header (host_order ev)
                (Some (take ETHER_HEADER_SIZE sent)) (Some h0) =
                Some (response_header ETHER_CMD_OK (msg_handle header) (ucast block_size)) \<and>
              drop ETHER_HEADER_SIZE sent = take (unat block_size) (blk_data b)) \<and>
         (ether_msg_validate (Some header) \<and> msg_command header = ETHER_CMD_READ \<and>
          malloc_payload_ok ev \<and> payload \<noteq> None \<longrightarrow>
            handle_client_step sv (client_request ev header payload) =
              Some (sv, wire_message (host_order ev)
                          (response_header ETHER_CMD_OK (msg_handle header)
                             (ucast block_size))
                          (take (unat block_size) (blk_data b)), True))"
proof -
  from assms(2) have p: "ptr \<noteq> NULL" and hp: "heap (srv_alloc sv) (get_header ptr) = Some b"
    and v: "is_valid_block (srv_alloc sv) (get_header ptr)" and wf: "block_wf b"
    by (simp_all add: live_region_def)
  from wf assms(3) have len: "unat block_size \<le> length (blk_data b)"
    by (simp add: block_wf_def word_le_nat_alt)
  have rd: "ether_read (srv_alloc sv) ptr (Some (replicate (unat block_size) 0)) block_size =
      Some (ETHER_OK, Some (take (unat block_size) (blk_data b)))"
    using p hp v assms(3) by (simp add: ether_read_def dangling_def Let_def not_less)
  have hr: "handle_read ev sv header =
           Some (sv, wire_message (host_order ev)
                       (response_header ETHER_CMD_OK (msg_handle header) (ucast block_size))
                       (take (unat block_size) (blk_data b)))"
    using assms(1,4,5,6,7) p len
    by (simp add: handle_read_def Let_def rd send_response_payload)
  have st: "handle_client_step sv (client_request ev header payload) =
              Some (sv, wire_message (host_order ev)
                          (response_header ETHER_CMD_OK (msg_handle header)
                             (ucast block_size))
                          (take (unat block_size) (blk_data b)), True)"
    if "ether_msg_validate (Some header) \<and> msg_command header = ETHER_CMD_READ \<and>
        malloc_payload_ok ev \<and> payload \<noteq> None"
    using that by (simp add: step_request cmd_distinct hr Let_def)
  show ?thesis
    using len st by (simp add: hr wire_message_split wire_message_decode)
qed

text \<open>
  Claim C4. A WRITE whose size field exceeds the block size stored in the table for its
  handle is answered with ERROR for that handle, and the server state, hence the block's
  bytes and its size, is unchanged; no write is attempted. The same holds of a whole
  pass of the client loop on such a request, once its header has passed validation and
  its payload has been received. The allocator's own \<open>ether_write\<close> rejects a length
  above the block size with \<open>ETHER_ERR_OVERFLOW\<close> and leaves the state unchanged too.
\<close>

theorem write_overflow_rejected:
  "(lookup_handle sv (msg_handle header) = Some (ptr, block_size) \<and>
    block_size < ucast (msg_size header) \<and> calloc_msg_ok ev \<longrightarrow>
      handle_write ev sv header payload =
        Some (sv, wire_message (host_order ev)
                    (response_header ETHER_CMD_ERROR (msg_handle header) 0) []) \<and>
      (case handle_write ev sv header payload of
         None \<Rightarrow> False
       | Some (sv1, sent) \<Rightarrow>
           heap (srv_alloc sv1) = heap (srv_alloc sv) \<and>
           ether_size (srv_alloc sv1) ptr = ether_size (srv_alloc sv) ptr) \<and>
      (ether_msg_validate (Some header) \<and> msg_command header = ETHER_CMD_WRITE \<and>
       malloc_payload_ok ev \<and> payload \<noteq> None \<longrightarrow>
         handle_client_step sv (client_request ev header payload) =
           Some (sv, wire_message (host_order ev)
                       (response_header ETHER_CMD_ERROR (msg_handle header) 0) [], True))) \<and>
   (live_region a p b \<and> blk_size b < len \<longrightarrow>
      ether_write a p (Some d) len = Some (a, ETHER_ERR_OVERFLOW))"
proof (intro conjI impI)
  assume a: "lookup_handle sv (msg_handle header) = Some (ptr, block_size) \<and>
    block_size < ucast (msg_size header) \<and> calloc_msg_ok ev"
  then have pos: "0 < msg_size header"
    by (auto simp add: word_greater_zero_iff)
  from a show hw: "handle_write ev sv header payload =
        Some (sv, wire_message (host_order ev)
                    (response_header ETHER_CMD_ERROR (msg_handle header) 0) [])"
    by (simp add: handle_write_def Let_def send_response_no_payload)
  then show "case handle_write ev sv header payload of
         None \<Rightarrow> False
       | Some (sv1, sent) \<Rightarrow>
           heap (srv_alloc sv1) = heap (srv_alloc sv) \<and>
           ether_size (srv_alloc sv1) ptr = ether_size (srv_alloc sv) ptr"
    by simp
  assume "ether_msg_validate (Some header) \<and> msg_command header = ETHER_CMD_WRITE \<and>
       malloc_payload_ok ev \<and> payload \<noteq> None"
  then show "handle_client_step sv (client_request ev header payload) =
           Some (sv, wire_message (host_order ev)
                       (response_header ETHER_CMD_ERROR (msg_handle header) 0) [], True)"
    using pos by (simp add: step_request cmd_distinct hw Let_def)
next
  assume "live_region a p b \<and> blk_size b < len"
  then show "ether_write a p (Some d) len = Some (a, ETHER_ERR_OVERFLOW)"
    by (simp add: ether_write_def live_region_def dangling_def Let_def)
qed

text \<open>
  Claim C10. A WRITE with size 0 on a live handle is answered with ERROR: the client
  loop reads no payload when the size is 0, so \<open>handle_write\<close> receives a null payload;
  0 does not exceed the stored size, so \<open>ether_write\<close> is reached, and it rejects the
  null data pointer with \<open>ETHER_ERR_INVALID\<close>.
\<close>

theorem empty_write_rejected:
  assumes "io_header io = ether_msg_serialize_header (host_order (io_env io)) (Some h) (Some buf)"
    and "ETHER_HEADER_SIZE \<le> length buf"
    and "msg_magic h = ETHER_MAGIC" and "msg_version h = ETHER_PROTOCOL_VER"
    and "msg_command h = ETHER_CMD_WRITE" and "msg_size h = 0"
    and "lookup_handle sv (msg_handle h) = Some (ptr, block_size)"
    and "live_region (srv_alloc sv) ptr b"
    and "calloc_msg_ok (io_env io)"
  shows "handle_client_step sv io =
           Some (sv, wire_message (host_order (io_env io))
                       (response_header ETHER_CMD_ERROR (msg_handle h) 0) [], True) \<and>
         \<not> block_size < ucast (msg_size h) \<and>
         ether_write (srv_alloc sv) ptr None (ucast (msg_size h)) =
           Some (srv_alloc sv, ETHER_ERR_INVALID)"
proof -
  obtain hb where hb: "ether_msg_serialize_header (host_order (io_env io)) (Some h) (Some buf) = Some hb"
    using serialize_Some by blast
  have dec: "ether_msg_deserialize_header (host_order (io_env io)) (Some hb) (Some zero_header) = Some h"
    using serialize_deserialize [OF assms(2), of "host_order (io_env io)" h zero_header]
    by (simp add: hb)
  have val: "ether_msg_validate (Some h)"
    using assms(3,4,6) by (simp add: ether_msg_validate_def)
  have w: "ether_write (srv_alloc sv) ptr None 0 = Some (srv_alloc sv, ETHER_ERR_INVALID)"
    by (simp add: ether_write_def)
  have hw: "handle_write (io_env io) sv h None =
      Some (sv, wire_message (host_order (io_env io))
                  (response_header ETHER_CMD_ERROR (msg_handle h) 0) [])"
    using assms(6,7,8,9)
    by (simp add: handle_write_def Let_def w send_response_no_payload live_region_def)
  have cmds: "ETHER_CMD_WRITE \<noteq> ETHER_CMD_PING" "ETHER_CMD_WRITE \<noteq> ETHER_CMD_ALLOC"
    "ETHER_CMD_WRITE \<noteq> ETHER_CMD_FREE"
    by (simp_all add: ETHER_CMD_WRITE_def ETHER_CMD_PING_def ETHER_CMD_ALLOC_def
        ETHER_CMD_FREE_def)
  have "handle_client_step sv io =
           Some (sv, wire_message (host_order (io_env io))
                       (response_header ETHER_CMD_ERROR (msg_handle h) 0) [], True)"
    using assms(1,5,6)
    by (simp add: handle_client_step_def Let_def hb dec val hw cmds)
  then show ?thesis
    using assms(6) w by simp
qed

lemma one_handle_lookup: "lookup_handle one_handle_server 1 = Some (4120, 8)"
  by (simp add: lookup_handle_def one_handle_server_def MAX_HANDLES_def)

lemma one_handle_alloc: "srv_alloc one_handle_server = one_block"
  by (simp add: one_handle_server_def)

lemma fair_env_simps:
  "host_order fair_env = LittleEndian" "malloc_scratch_ok fair_env" "calloc_msg_ok fair_env"
  by (simp_all add: fair_env_def)

lemma request_header_simps:
  "msg_magic (request_header c h n) = ETHER_MAGIC"
  "msg_version (request_header c h n) = ETHER_PROTOCOL_VER"
  "msg_command (request_header c h n) = c"
  "msg_handle (request_header c h n) = h"
  "msg_size (request_header c h n) = n"
  by (simp_all add: request_header_def)

lemma ether_size_live:
  assumes "live_region s ptr b"
  shows "ether_size s ptr = Some (blk_size b)"
  using assms by (simp add: ether_size_def live_region_def dangling_def)

theorem read_caps_to_block_size_witness:
  "lookup_handle one_handle_server 1 = Some (4120, 8) \<and>
   live_region (srv_alloc one_handle_server) 4120 one_block_contents \<and>
   (8 :: size_t) \<le> blk_size one_block_contents \<and>
   (8 :: size_t) < ucast (100 :: u32) \<and> unat (8 :: size_t) \<le> ETHER_MAX_PAYLOAD \<and>
   malloc_scratch_ok fair_env \<and> calloc_msg_ok fair_env \<and>
   ether_msg_validate (Some (request_header ETHER_CMD_READ 1 100)) \<and>
   malloc_payload_ok fair_env \<and>
   handle_read fair_env one_handle_server (request_header ETHER_CMD_READ 1 100) =
     Some (one_handle_server,
           wire_message LittleEndian (response_header ETHER_CMD_OK 1 8)
             [1, 2, 3, 4, 5, 6, 7, 8]) \<and>
   handle_client_step one_handle_server
     (client_request fair_env (request_header ETHER_CMD_READ 1 100) (Some (replicate 100 0))) =
     Some (one_handle_server,
           wire_message LittleEndian (response_header ETHER_CMD_OK 1 8)
             [1, 2, 3, 4, 5, 6, 7, 8],
           True)"
proof -
  have a1: "lookup_handle one_handle_server (msg_handle (request_header ETHER_CMD_READ 1 100)) =
      Some (4120, 8)"
    by (simp add: request_header_simps one_handle_lookup)
  have a2: "live_region (srv_alloc one_handle_server) 4120 one_block_contents"
    by (simp add: one_handle_alloc one_block_live)
  have a3: "(8 :: size_t) \<le> blk_size one_block_contents"
    by (simp add: one_block_contents_def)
  have a4: "(8 :: size_t) < ucast (msg_size (request_header ETHER_CMD_READ 1 100))"
    by (simp add: request_header_simps)
  have a5: "unat (8 :: size_t) \<le> ETHER_MAX_PAYLOAD"
    by (simp add: ETHER_MAX_PAYLOAD_def)
  have a6: "ether_msg_validate (Some (request_header ETHER_CMD_READ 1 100))"
    by (rule request_valid) (simp add: ETHER_MAX_PAYLOAD_def)
  have a7: "malloc_payload_ok fair_env"
    by (simp add: fair_env_def)
  show ?thesis
    using read_caps_to_block_size [OF a1 a2 a3 a4 a5 fair_env_simps(2) fair_env_simps(3),
        of zero_header "Some (replicate 100 0)"]
      a1 a2 a3 a4 a5 a6 a7
    by (simp add: request_header_simps fair_env_simps one_block_contents_def)
qed

theorem write_overflow_rejected_witness:
  "lookup_handle one_handle_server 1 = Some (4120, 8) \<and>
   (8 :: size_t) < ucast (100 :: u32) \<and> calloc_msg_ok fair_env \<and>
   ether_msg_validate (Some (request_header ETHER_CMD_WRITE 1 100)) \<and>
   malloc_payload_ok fair_env \<and>
   live_region one_block 4120 one_block_contents \<and>
   blk_size one_block_contents < 100 \<and>
   handle_write fair_env one_handle_server (request_header ETHER_CMD_WRITE 1 100)
       (Some (replicate 100 88)) =
     Some (one_handle_server,
           wire_message LittleEndian (response_header ETHER_CMD_ERROR 1 0) []) \<and>
   handle_client_step one_handle_server
     (client_request fair_env (request_header ETHER_CMD_WRITE 1 100)
        (Some (replicate 100 88))) =
     Some (one_handle_server,
           wire_message LittleEndian (response_header ETHER_CMD_ERROR 1 0) [], True) \<and>
   ether_size (srv_alloc one_handle_server) 4120 = Some 8 \<and>
   ether_write one_block 4120 (Some (replicate 100 88)) 100 =
     Some (one_block, ETHER_ERR_OVERFLOW)"
proof -
  have sz: "ether_size one_block 4120 = Some 8"
    using ether_size_live [OF one_block_live]
    by (simp add: one_block_contents_def)
  have v: "ether_msg_validate (Some (request_header ETHER_CMD_WRITE 1 100))"
    by (rule request_valid) (simp add: ETHER_MAX_PAYLOAD_def)
  have m: "malloc_payload_ok fair_env"
    by (simp add: fair_env_def)
  show ?thesis
    using write_overflow_rejected [where sv = one_handle_server
        and header = "request_header ETHER_CMD_WRITE 1 100" and ptr = 4120
        and block_size = 8 and ev = fair_env and payload = "Some (replicate 100 88)"
        and a = one_block and p = 4120 and b = one_block_contents and len = 100
        and d = "replicate 100 88"]
      one_block_live v m
    by (simp add: request_header_simps fair_env_simps one_handle_lookup one_handle_alloc sz
        one_block_contents_def)
qed

theorem empty_write_rejected_witness:
  "ETHER_HEADER_SIZE \<le> length (replicate 24 (0 :: u8)) \<and>
   lookup_handle one_handle_server 1 = Some (4120, 8) \<and>
   live_region (srv_alloc one_handle_server) 4120 one_block_contents \<and>
   calloc_msg_ok fair_env \<and>
   handle_client_step one_handle_server
     \<lparr>io_env = fair_env,
      io_header = ether_msg_serialize_header LittleEndian
                    (Some (request_header ETHER_CMD_WRITE 1 0)) (Some (replicate 24 0)),
      io_payload = None\<rparr> =
     Some (one_handle_server,
           wire_message LittleEndian (response_header ETHER_CMD_ERROR 1 0) [], True)"
proof -
  have l: "ETHER_HEADER_SIZE \<le> length (replicate 24 (0 :: u8))"
    by (simp add: ETHER_HEADER_SIZE_def)
  have a2: "live_region (srv_alloc one_handle_server) 4120 one_block_contents"
    by (simp add: one_handle_alloc one_block_live)
  show ?thesis
    using empty_write_rejected [where io = "\<lparr>io_env = fair_env,
        io_header = ether_msg_serialize_header LittleEndian
                      (Some (request_header ETHER_CMD_WRITE 1 0)) (Some (replicate 24 0)),
        io_payload = None\<rparr>" and h = "request_header ETHER_CMD_WRITE 1 0"
        and buf = "replicate 24 0" and sv = one_handle_server and ptr = 4120
        and block_size = 8 and b = one_block_contents]
      l a2
    by (simp add: request_header_simps fair_env_simps one_handle_lookup)
qed

section \<open>Properties of the handle table\<close>

declare store_handle_from.simps [simp del]
declare remove_handle_from.simps [simp del]

lemma store_handle_from_full:
  "\<forall>j. i \<le> j \<and> j < MAX_HANDLES \<longrightarrow> ent_in_use (g_handles sv ! j) \<Longrightarrow>
   store_handle_from sv p n i = (sv, 0)"
proof (induction sv p n i rule: store_handle_from.induct)
  case (1 sv ptr sz i)
  show ?case
  proof (cases "i < MAX_HANDLES")
    case True
    with "1.prems" have u: "ent_in_use (g_handles sv ! i)" by simp
    have "store_handle_from sv ptr sz (i + 1) = (sv, 0)"
      using "1.IH" [OF True] u "1.prems" by simp
    with True u show ?thesis
      by (subst store_handle_from.simps) simp
  next
    case False
    then show ?thesis
      by (subst store_handle_from.simps) simp
  qed
qed

lemma store_handle_from_free:
  "\<exists>j. i \<le> j \<and> j < MAX_HANDLES \<and> \<not> ent_in_use (g_handles sv ! j) \<Longrightarrow>
   \<exists>j. i \<le> j \<and> j < MAX_HANDLES \<and> \<not> ent_in_use (g_handles sv ! j) \<and>
       (\<forall>k. i \<le> k \<and> k < j \<longrightarrow> ent_in_use (g_handles sv ! k)) \<and>
       store_handle_from sv p n i =
         (sv\<lparr>g_handles := (g_handles sv)
               [j := \<lparr>ent_handle = g_next_handle sv, ent_ptr = p, ent_size = n,
                      ent_in_use = True\<rparr>],
             g_next_handle := g_next_handle sv + 1\<rparr>,
          g_next_handle sv)"
proof (induction sv p n i rule: store_handle_from.induct)
  case (1 sv ptr sz i)
  from "1.prems" have lt: "i < MAX_HANDLES" by auto
  show ?case
  proof (cases "ent_in_use (g_handles sv ! i)")
    case False
    with lt show ?thesis
      by (subst store_handle_from.simps) (intro exI [of _ i], auto)
  next
    case True
    with "1.prems" have "\<exists>j. i + 1 \<le> j \<and> j < MAX_HANDLES \<and> \<not> ent_in_use (g_handles sv ! j)"
      by (metis Suc_eq_plus1 Suc_leI le_neq_implies_less)
    from "1.IH" [OF lt _ this] True obtain j where
      j: "i + 1 \<le> j" "j < MAX_HANDLES" "\<not> ent_in_use (g_handles sv ! j)"
      "\<forall>k. i + 1 \<le> k \<and> k < j \<longrightarrow> ent_in_use (g_handles sv ! k)"
      "store_handle_from sv ptr sz (i + 1) =
         (sv\<lparr>g_handles := (g_handles sv)
               [j := \<lparr>ent_handle = g_next_handle sv, ent_ptr = ptr, ent_size = sz,
                      ent_in_use = True\<rparr>],
             g_next_handle := g_next_handle sv + 1\<rparr>,
          g_next_handle sv)"
      by auto
    have "store_handle_from sv ptr sz i = store_handle_from sv ptr sz (i + 1)"
      using lt True by (subst store_handle_from.simps) simp
    moreover have "\<forall>k. i \<le> k \<and> k < j \<longrightarrow> ent_in_use (g_handles sv ! k)"
    proof (intro allI impI)
      fix k assume k: "i \<le> k \<and> k < j"
      show "ent_in_use (g_handles sv ! k)"
      proof (cases "k = i")
        case True
        with \<open>ent_in_use (g_handles sv ! i)\<close> show ?thesis by simp
      next
        case False
        with k j(4) show ?thesis by simp
      qed
    qed
    ultimately show ?thesis
      using j by (intro exI [of _ j]) simp
  qed
qed


lemma store_handle_full: "table_full sv \<Longrightarrow> store_handle sv p n = (sv, 0)"
  by (simp add: store_handle_def table_full_def store_handle_from_full)

lemma store_handle_free:
  assumes "\<not> table_full sv"
  obtains j where "j < MAX_HANDLES" "\<not> ent_in_use (g_handles sv ! j)"
    "store_handle sv p n =
       (sv\<lparr>g_handles := (g_handles sv)
             [j := \<lparr>ent_handle = g_next_handle sv, ent_ptr = p, ent_size = n,
                    ent_in_use = True\<rparr>],
           g_next_handle := g_next_handle sv + 1\<rparr>,
        g_next_handle sv)"
    "\<forall>k<j. ent_in_use (g_handles sv ! k)"
proof -
  from assms have "\<exists>j. 0 \<le> j \<and> j < MAX_HANDLES \<and> \<not> ent_in_use (g_handles sv ! j)"
    by (auto simp add: table_full_def)
  from store_handle_from_free [OF this, of p n] that show ?thesis
    by (auto simp add: store_handle_def)
qed

lemma map_update_same: "(map f xs)[i := f (xs ! i)] = map f xs"
  by (cases "i < length xs") (simp_all add: list_update_same_conv list_update_beyond)

lemma remove_handle_from_shape:
  "g_next_handle (fst (remove_handle_from sv h i)) = g_next_handle sv \<and>
   length (g_handles (fst (remove_handle_from sv h i))) = length (g_handles sv) \<and>
   map ent_handle (g_handles (fst (remove_handle_from sv h i))) = map ent_handle (g_handles sv)"
proof (induction sv h i rule: remove_handle_from.induct)
  case (1 sv h i)
  show ?case
  proof (cases "i < MAX_HANDLES")
    case False
    then show ?thesis
      by (subst (1 2 3) remove_handle_from.simps) simp
  next
    case True
    show ?thesis
    proof (cases "ent_in_use (g_handles sv ! i) \<and> ent_handle (g_handles sv ! i) = h")
      case hit: True
      with True show ?thesis
        by (subst (1 2 3) remove_handle_from.simps) (auto simp add: map_update map_update_same)
    next
      case miss: False
      have "remove_handle_from sv h i = remove_handle_from sv h (i + 1)"
        using True miss by (subst remove_handle_from.simps) auto
      with "1.IH" [OF True miss] show ?thesis
        by simp
    qed
  qed
qed

declare lookup_handle_from.simps [simp del]

lemma lookup_handle_from_found:
  assumes "i \<le> j" "j < MAX_HANDLES"
    and "ent_in_use (g_handles sv ! j)" "ent_handle (g_handles sv ! j) = h"
    and "\<forall>k. i \<le> k \<and> k < j \<longrightarrow> ent_handle (g_handles sv ! k) \<noteq> h"
  shows "lookup_handle_from sv h i =
           Some (ent_ptr (g_handles sv ! j), ent_size (g_handles sv ! j))"
  using assms
proof (induction sv h i rule: lookup_handle_from.induct)
  case (1 sv h i)
  from "1.prems" have lt: "i < MAX_HANDLES" by simp
  show ?case
  proof (cases "i = j")
    case True
    with "1.prems" lt show ?thesis
      by (subst lookup_handle_from.simps) simp
  next
    case False
    with "1.prems" have ne: "ent_handle (g_handles sv ! i) \<noteq> h" and le: "i + 1 \<le> j"
      by auto
    have "lookup_handle_from sv h i = lookup_handle_from sv h (i + 1)"
      using lt ne by (subst lookup_handle_from.simps) simp
    moreover have "lookup_handle_from sv h (i + 1) =
        Some (ent_ptr (g_handles sv ! j), ent_size (g_handles sv ! j))"
      using "1.IH" [OF lt _ le] ne "1.prems" by simp
    ultimately show ?thesis by simp
  qed
qed

lemma unat_succ_u64:
  assumes "unat (c :: u64) + 1 < 2 ^ 64"
  shows "unat (c + 1) = unat c + 1"
  using assms by (simp add: unat_word_ariths)

lemma list_all_update:
  assumes "list_all P xs" "P x"
  shows "list_all P (xs[i := x])"
  using assms set_update_subset_insert [of xs i x]
  by (auto simp add: list_all_iff)

lemma table_inv_store:
  assumes inv: "table_inv sv hs" and bound: "unat (g_next_handle sv) + 1 < 2 ^ 64"
  shows "table_inv (fst (store_handle sv p n)) (hs @ [snd (store_handle sv p n)])"
    and "unat (g_next_handle (fst (store_handle sv p n))) \<le> unat (g_next_handle sv) + 1"
proof -
  have lt: "g_next_handle sv < g_next_handle sv + 1"
    using unat_succ_u64 [OF bound] by (simp add: word_less_nat_alt)
  have nz: "g_next_handle sv + 1 \<noteq> 0"
    using unat_succ_u64 [OF bound] by (metis Suc_eq_plus1 nat.distinct(1) unat_0)
  have pos: "0 < g_next_handle sv"
    using inv by (simp add: table_inv_def word_greater_zero_iff)
  have "table_inv (fst (store_handle sv p n)) (hs @ [snd (store_handle sv p n)]) \<and>
    unat (g_next_handle (fst (store_handle sv p n))) \<le> unat (g_next_handle sv) + 1"
  proof (cases "table_full sv")
    case True
    with inv pos show ?thesis
      by (simp add: store_handle_full table_inv_def)
  next
    case False
    then obtain j where j: "store_handle sv p n =
       (sv\<lparr>g_handles := (g_handles sv)
             [j := \<lparr>ent_handle = g_next_handle sv, ent_ptr = p, ent_size = n,
                    ent_in_use = True\<rparr>],
           g_next_handle := g_next_handle sv + 1\<rparr>,
        g_next_handle sv)"
      by (rule store_handle_free)
    have mono: "\<And>x. x < g_next_handle sv \<Longrightarrow> x < g_next_handle sv + 1"
      using lt by (rule order_less_trans [rotated])
    have a: "list_all (\<lambda>e. ent_handle e < g_next_handle sv + 1) (g_handles sv)"
      using inv mono by (auto simp add: table_inv_def list_all_iff)
    have b: "list_all (\<lambda>h. h < g_next_handle sv + 1) hs"
      using inv mono by (auto simp add: table_inv_def list_all_iff)
    show ?thesis
      using inv lt nz a b unat_succ_u64 [OF bound]
      by (simp add: j table_inv_def list_all_update)
  qed
  then show "table_inv (fst (store_handle sv p n)) (hs @ [snd (store_handle sv p n)])"
    and "unat (g_next_handle (fst (store_handle sv p n))) \<le> unat (g_next_handle sv) + 1"
    by simp_all
qed

lemma table_inv_remove:
  assumes "table_inv sv hs"
  shows "table_inv (fst (remove_handle sv h)) hs"
    and "g_next_handle (fst (remove_handle sv h)) = g_next_handle sv"
proof -
  note sh = remove_handle_from_shape [of sv h 0]
  from sh have "list_all (\<lambda>e. ent_handle e < g_next_handle sv)
      (g_handles (fst (remove_handle_from sv h 0))) =
    list_all (\<lambda>x. x < g_next_handle sv) (map ent_handle (g_handles sv))"
    by (metis (no_types, lifting) list.pred_map comp_def list_all_cong)
  with assms sh show "table_inv (fst (remove_handle sv h)) hs"
    by (simp add: table_inv_def remove_handle_def list.pred_map comp_def)
  from sh show "g_next_handle (fst (remove_handle sv h)) = g_next_handle sv"
    by (simp add: remove_handle_def)
qed

lemma table_inv_run:
  assumes "table_inv sv hs0" and "unat (g_next_handle sv) + length ops < 2 ^ 64"
  shows "table_inv (fst (run_table sv ops)) (hs0 @ snd (run_table sv ops))"
  using assms
proof (induction ops arbitrary: sv hs0)
  case Nil
  then show ?case by simp
next
  case (Cons x xs)
  show ?case
  proof (cases x)
    case (Store p n)
    from Cons.prems have b: "unat (g_next_handle sv) + 1 < 2 ^ 64" by simp
    note st = table_inv_store [OF Cons.prems(1) b, of p n]
    have "unat (g_next_handle (fst (store_handle sv p n))) + length xs < 2 ^ 64"
      using st(2) Cons.prems(2) by simp
    from Cons.IH [OF st(1) this] show ?thesis
      by (simp add: Store case_prod_unfold)
  next
    case (Remove h)
    note rm = table_inv_remove [OF Cons.prems(1), of h]
    have "unat (g_next_handle (fst (remove_handle sv h))) + length xs < 2 ^ 64"
      using rm(2) Cons.prems(2) by simp
    from Cons.IH [OF rm(1) this] show ?thesis
      by (simp add: Remove case_prod_unfold)
  qed
qed

lemma table_inv_init: "table_inv init_server []"
  by (simp add: table_inv_def init_server_def empty_entry_def list_all_iff)

text \<open>
  Claim C8. After any history of stores and removals on the initial table (shorter than
  \<open>2^64 - 1\<close> calls, so that the 64-bit counter has not wrapped), the next
  \<open>store_handle\<close> returns 0 and changes nothing when the table is full; otherwise it
  returns a handle that is not 0, is strictly greater than every handle issued before
  (so it equals none of them, removed or not), and that \<open>lookup_handle\<close> then resolves to
  the region and size just stored.
\<close>

theorem store_handle_monotone:
  assumes "length ops < 2 ^ 64 - 1"
  shows "(if table_full (fst (run_table init_server ops))
          then store_handle (fst (run_table init_server ops)) p n =
                 (fst (run_table init_server ops), 0)
          else snd (store_handle (fst (run_table init_server ops)) p n) \<noteq> 0 \<and>
               list_all (\<lambda>h'. h' < snd (store_handle (fst (run_table init_server ops)) p n))
                 (snd (run_table init_server ops)) \<and>
               snd (store_handle (fst (run_table init_server ops)) p n) \<notin>
                 set (snd (run_table init_server ops)) \<and>
               lookup_handle (fst (store_handle (fst (run_table init_server ops)) p n))
                 (snd (store_handle (fst (run_table init_server ops)) p n)) = Some (p, n))"
proof -
  define sv where "sv = fst (run_table init_server ops)"
  define hs where "hs = snd (run_table init_server ops)"
  have "unat (g_next_handle init_server) + length ops < 2 ^ 64"
    using assms by (simp add: init_server_def)
  from table_inv_run [OF table_inv_init this] have inv: "table_inv sv hs"
    by (simp add: sv_def hs_def)
  have "if table_full sv then store_handle sv p n = (sv, 0)
        else snd (store_handle sv p n) \<noteq> 0 \<and>
             list_all (\<lambda>h'. h' < snd (store_handle sv p n)) hs \<and>
             snd (store_handle sv p n) \<notin> set hs \<and>
             lookup_handle (fst (store_handle sv p n)) (snd (store_handle sv p n)) = Some (p, n)"
  proof (cases "table_full sv")
    case True
    then show ?thesis by (simp add: store_handle_full)
  next
    case False
    then obtain j where j: "j < MAX_HANDLES" "store_handle sv p n =
       (sv\<lparr>g_handles := (g_handles sv)
             [j := \<lparr>ent_handle = g_next_handle sv, ent_ptr = p, ent_size = n,
                    ent_in_use = True\<rparr>],
           g_next_handle := g_next_handle sv + 1\<rparr>,
        g_next_handle sv)"
      by (rule store_handle_free)
    let ?sv' = "fst (store_handle sv p n)"
    from inv have len: "length (g_handles sv) = MAX_HANDLES"
      and nz: "g_next_handle sv \<noteq> 0"
      and ents: "list_all (\<lambda>e. ent_handle e < g_next_handle sv) (g_handles sv)"
      and iss: "list_all (\<lambda>h. h < g_next_handle sv) hs"
      by (simp_all add: table_inv_def)
    from iss have notin: "g_next_handle sv \<notin> set hs"
      by (auto simp add: list_all_iff)
    have other: "\<forall>k. 0 \<le> k \<and> k < j \<longrightarrow> ent_handle (g_handles ?sv' ! k) \<noteq> g_next_handle sv"
    proof (intro allI impI)
      fix k assume k: "0 \<le> k \<and> k < j"
      with j(1) len have "g_handles sv ! k \<in> set (g_handles sv)" by simp
      with ents have "ent_handle (g_handles sv ! k) < g_next_handle sv"
        by (simp add: list_all_iff)
      with k show "ent_handle (g_handles ?sv' ! k) \<noteq> g_next_handle sv"
        by (simp add: j(2))
    qed
    have "lookup_handle_from ?sv' (g_next_handle sv) 0 =
        Some (ent_ptr (g_handles ?sv' ! j), ent_size (g_handles ?sv' ! j))"
      using j(1) len other
      by (intro lookup_handle_from_found) (simp_all add: j(2))
    then have "lookup_handle ?sv' (g_next_handle sv) = Some (p, n)"
      using j(1) len by (simp add: lookup_handle_def j(2))
    with False nz iss notin show ?thesis
      by (simp add: j(2))
  qed
  then show ?thesis
    unfolding sv_def hs_def .
qed

lemma run_store_remove:
  "run_table init_server [Store 4120 8, Remove 1] =
     (\<lparr>srv_alloc = init_allocator,
       g_handles = (replicate MAX_HANDLES empty_entry)
         [0 := \<lparr>ent_handle = 1, ent_ptr = NULL, ent_size = 8, ent_in_use = False\<rparr>],
       g_next_handle = 2\<rparr>, [1])"
  by (simp add: init_server_def store_handle_def remove_handle_def MAX_HANDLES_def
      store_handle_from.simps remove_handle_from.simps empty_entry_def)

theorem store_handle_monotone_witness:
  "length [Store 4120 8, Remove 1] < (2 :: nat) ^ 64 - 1 \<and>
   snd (run_table init_server [Store 4120 8, Remove 1]) = [1] \<and>
   \<not> table_full (fst (run_table init_server [Store 4120 8, Remove 1])) \<and>
   snd (store_handle (fst (run_table init_server [Store 4120 8, Remove 1])) 8216 16) \<noteq> 0 \<and>
   list_all
     (\<lambda>h'. h' < snd (store_handle (fst (run_table init_server [Store 4120 8, Remove 1]))
                   8216 16))
     (snd (run_table init_server [Store 4120 8, Remove 1])) \<and>
   lookup_handle
     (fst (store_handle (fst (run_table init_server [Store 4120 8, Remove 1])) 8216 16))
     (snd (store_handle (fst (run_table init_server [Store 4120 8, Remove 1])) 8216 16)) =
     Some (8216, 16)"
proof -
  have l: "length [Store 4120 8, Remove 1] < (2 :: nat) ^ 64 - 1"
    by simp
  have nf: "\<not> table_full (fst (run_table init_server [Store 4120 8, Remove 1]))"
    unfolding run_store_remove
    by (simp add: table_full_def MAX_HANDLES_def) (rule exI [of _ 0], simp)
  show ?thesis
    using store_handle_monotone [OF l, of 8216 16] l nf
    unfolding run_store_remove
    by simp
qed

section \<open>Properties of the statistics\<close>

text \<open>
  Claim C1, as stated, fails: allocate 100 bytes, reset the statistics while the block is
  live, release the block. The release subtracts 100 from a \<open>current_usage\<close> of 0, which
  wraps to \<open>2^64 - 100\<close>, above a \<open>peak_usage\<close> of 0.
\<close>

theorem stats_invariant_counterexample:
  "\<not> (usage_balanced (g_stats (run_ops init_allocator [Alloc 100 4096, ResetStats, Free 4120])) \<and>
      usage_below_peak (g_stats (run_ops init_allocator [Alloc 100 4096, ResetStats, Free 4120])))"
  by (simp add: usage_below_peak_def init_allocator_def ether_alloc_def
      ether_reset_stats_def ether_free_def sys_free_def dangling_def is_valid_block_def
      zero_stats_def Let_def get_user_ptr_def get_header_def HEADER_SIZE_def NULL_def
      FLAG_ALLOCATED_def freed_not_magic)

lemma stats_after_reset_and_free:
  "current_usage (g_stats (run_ops init_allocator [Alloc 100 4096, ResetStats, Free 4120])) =
     0xFFFFFFFFFFFFFF9C"
  "peak_usage (g_stats (run_ops init_allocator [Alloc 100 4096, ResetStats, Free 4120])) = 0"
  by (simp_all add: init_allocator_def ether_alloc_def
      ether_reset_stats_def ether_free_def sys_free_def dangling_def is_valid_block_def
      zero_stats_def Let_def get_user_ptr_def get_header_def HEADER_SIZE_def NULL_def
      FLAG_ALLOCATED_def freed_not_magic)

lemma balanced_alloc:
  assumes "usage_balanced (g_stats s)" "ether_alloc s n m = Some (s1, p)"
  shows "usage_balanced (g_stats s1)"
  using assms
  by (auto simp add: usage_balanced_def ether_alloc_def Let_def split: if_splits)

lemma balanced_free:
  assumes "usage_balanced (g_stats s)" "ether_free s p = Some s1"
  shows "usage_balanced (g_stats s1)"
  using assms
  by (auto simp add: usage_balanced_def ether_free_def sys_free_def Let_def
      split: option.splits if_splits)

lemma balanced_memcpy:
  "g_stats (memcpy_blocks s d p n) = g_stats s"
  by (simp add: memcpy_blocks_def split: option.splits)

lemma balanced_realloc:
  assumes "usage_balanced (g_stats s)" "ether_realloc s p n m = Some (s1, q)"
  shows "usage_balanced (g_stats s1)"
proof (cases "p = NULL")
  case True
  with assms show ?thesis
    by (auto simp add: ether_realloc_def intro: balanced_alloc)
next
  case pn: False
  show ?thesis
  proof (cases "n = 0")
    case True
    with pn assms show ?thesis
      by (auto simp add: ether_realloc_def split: option.splits intro: balanced_free)
  next
    case nz: False
    have moved: "usage_balanced (g_stats s1)"
      if al: "ether_alloc s n m = Some (s2, np)"
        and fr: "ether_free (memcpy_blocks s2 np p c) p = Some s1" for s2 np c
    proof -
      have "usage_balanced (g_stats (memcpy_blocks s2 np p c))"
        using balanced_alloc [OF assms(1) al] by (simp add: balanced_memcpy)
      then show ?thesis
        using fr by (rule balanced_free)
    qed
    have failed: "usage_balanced (g_stats s2)"
      if al: "ether_alloc s n m = Some (s2, np)" for s2 np
      using balanced_alloc [OF assms(1) al] .
    show ?thesis
      using assms pn nz moved failed
      by (auto simp add: ether_realloc_def Let_def split: option.splits if_splits)
  qed
qed

lemma balanced_reset: "usage_balanced (g_stats (ether_reset_stats s))"
  by (simp add: usage_balanced_def ether_reset_stats_def zero_stats_def)

lemma balanced_run:
  "usage_balanced (g_stats s) \<Longrightarrow> usage_balanced (g_stats (run_ops s ops))"
proof (induction ops arbitrary: s)
  case Nil
  then show ?case by simp
next
  case (Cons x xs)
  show ?case
  proof (cases "apply_op s x")
    case None
    with Cons.prems show ?thesis by simp
  next
    case (Some s1)
    have "usage_balanced (g_stats s1)"
      using Cons.prems Some
      by (cases x) (auto simp add: balanced_reset intro: balanced_alloc balanced_free
          balanced_realloc)
    then show ?thesis
      using Cons.IH Some by simp
  qed
qed

lemma weight_of_None [simp]: "weight_of h None = 0"
  by (simp add: weight_of_def)

lemma weight_of_valid:
  "weight_of h (heap s h) =
     (if is_valid_block s h then unat (blk_capacity (the (heap s h))) else 0)"
  by (auto simp add: weight_of_def is_valid_block_def split: option.splits)

lemma sum_map_upd:
  assumes "finite (dom m)"
  shows "(\<Sum>k \<in> dom (m(h \<mapsto> b')). weight_of k ((m(h \<mapsto> b')) k)) + weight_of h (m h) =
         (\<Sum>k \<in> dom m. weight_of k (m k)) + weight_of h (Some b')"
proof -
  have fin: "finite (dom m - {h})" using assms by simp
  have rest: "(\<Sum>k \<in> dom m - {h}. weight_of k ((m(h \<mapsto> b')) k)) =
              (\<Sum>k \<in> dom m - {h}. weight_of k (m k))"
    by (rule sum.cong) auto
  have new: "(\<Sum>k \<in> dom (m(h \<mapsto> b')). weight_of k ((m(h \<mapsto> b')) k)) =
             weight_of h (Some b') + (\<Sum>k \<in> dom m - {h}. weight_of k (m k))"
  proof -
    have d: "dom (m(h \<mapsto> b')) = insert h (dom m - {h})" by auto
    have "(\<Sum>k \<in> insert h (dom m - {h}). weight_of k ((m(h \<mapsto> b')) k)) =
          weight_of h ((m(h \<mapsto> b')) h) +
          (\<Sum>k \<in> dom m - {h}. weight_of k ((m(h \<mapsto> b')) k))"
      using fin by (intro sum.insert) simp_all
    then show ?thesis
      unfolding d rest by simp
  qed
  have old: "(\<Sum>k \<in> dom m. weight_of k (m k)) =
             weight_of h (m h) + (\<Sum>k \<in> dom m - {h}. weight_of k (m k))"
  proof (cases "h \<in> dom m")
    case True
    then show ?thesis using assms by (simp add: sum.remove)
  next
    case False
    then have "m h = None" by auto
    with False show ?thesis by simp
  qed
  from new old show ?thesis by simp
qed

lemma outstanding_upd:
  assumes "finite (dom (heap s))"
  shows "outstanding (s\<lparr>heap := (heap s)(h \<mapsto> b')\<rparr>) + weight_of h (heap s h) =
         outstanding s + weight_of h (Some b')"
  using sum_map_upd [OF assms, of h b'] by (simp add: outstanding_def)

lemma sum_map_remove:
  assumes "finite (dom m)"
  shows "(\<Sum>k \<in> dom (m(h := None)). weight_of k ((m(h := None)) k)) + weight_of h (m h) =
         (\<Sum>k \<in> dom m. weight_of k (m k))"
proof -
  have d: "dom (m(h := None)) = dom m - {h}" by auto
  have rest: "(\<Sum>k \<in> dom m - {h}. weight_of k ((m(h := None)) k)) =
              (\<Sum>k \<in> dom m - {h}. weight_of k (m k))"
    by (rule sum.cong) auto
  have old: "(\<Sum>k \<in> dom m. weight_of k (m k)) =
             weight_of h (m h) + (\<Sum>k \<in> dom m - {h}. weight_of k (m k))"
  proof (cases "h \<in> dom m")
    case True
    then show ?thesis using assms by (simp add: sum.remove)
  next
    case False
    then have "m h = None" by auto
    with False show ?thesis by simp
  qed
  show ?thesis
    unfolding d rest old by simp
qed

lemma outstanding_remove:
  assumes "finite (dom (heap s))"
  shows "outstanding (s\<lparr>heap := (heap s)(h := None)\<rparr>) + weight_of h (heap s h) =
         outstanding s"
  using sum_map_remove [OF assms, of h] by (simp add: outstanding_def)

lemma is_valid_block_remove:
  "is_valid_block (s\<lparr>heap := (heap s)(h := None)\<rparr>) k = (k \<noteq> h \<and> is_valid_block s k)"
  by (simp add: is_valid_block_def)

lemma is_valid_block_upd:
  "is_valid_block (s\<lparr>heap := (heap s)(h \<mapsto> b')\<rparr>) k =
     (if k = h then h \<noteq> NULL \<and> blk_magic b' = BLOCK_MAGIC \<and> blk_flags b' AND FLAG_ALLOCATED \<noteq> 0
      else is_valid_block s k)"
  by (simp add: is_valid_block_def)

lemma is_valid_block_stats [simp]:
  "is_valid_block (s\<lparr>g_stats := st\<rparr>) k = is_valid_block s k"
  "is_valid_block (s\<lparr>sys_freed := fl\<rparr>) k = is_valid_block s k"
  "is_valid_block (s\<lparr>stderr_log := lg\<rparr>) k = is_valid_block s k"
  by (simp_all add: is_valid_block_def)

lemma outstanding_stats [simp]:
  "outstanding (s\<lparr>g_stats := st\<rparr>) = outstanding s"
  "outstanding (s\<lparr>sys_freed := fl\<rparr>) = outstanding s"
  "outstanding (s\<lparr>stderr_log := lg\<rparr>) = outstanding s"
  by (simp_all add: outstanding_def)

lemma alloc_inv_log [simp]:
  "alloc_inv (s\<lparr>stderr_log := lg\<rparr>) = alloc_inv s"
  by (simp add: alloc_inv_def)

lemma unat_plus_u64:
  assumes "unat (a :: u64) + unat b < 2 ^ 64"
  shows "unat (a + b) = unat a + unat b"
  using assms by (simp add: unat_word_ariths)

lemma inv_alloc:
  assumes inv: "alloc_inv s"
    and bound: "unat (total_allocated (g_stats s)) + unat n < 2 ^ 64"
    and al: "ether_alloc s n m = Some (s1, p)"
  shows "alloc_inv s1"
    and "unat (total_allocated (g_stats s1)) \<le> unat (total_allocated (g_stats s)) + unat n"
proof -
  let ?st = "g_stats s"
  from inv have fin: "finite (dom (heap s))"
    and szs: "\<forall>h b. heap s h = Some b \<and> is_valid_block s h \<longrightarrow> blk_size b \<le> blk_capacity b"
    and out: "outstanding s \<le> unat (current_usage ?st)"
    and bal: "unat (total_freed ?st) + unat (current_usage ?st) = unat (total_allocated ?st)"
    and peak: "current_usage ?st \<le> peak_usage ?st"
    by (simp_all add: alloc_inv_def)
  have both: "alloc_inv s1 \<and>
      unat (total_allocated (g_stats s1)) \<le> unat (total_allocated ?st) + unat n"
  proof (cases "n = 0 \<or> m = NULL")
    case True
    with inv al show ?thesis by (auto simp add: ether_alloc_def Let_def split: if_splits)
  next
    case False
    define blk where "blk = \<lparr>blk_magic = BLOCK_MAGIC, blk_flags = FLAG_ALLOCATED, blk_size = n,
                    blk_capacity = n, blk_data = replicate (unat n) 0\<rparr>"
    have ta: "unat (total_allocated ?st + n) = unat (total_allocated ?st) + unat n"
      using bound by (rule unat_plus_u64)
    have cub: "unat (current_usage ?st) + unat n < 2 ^ 64"
      using bound bal by simp
    have cu: "unat (current_usage ?st + n) = unat (current_usage ?st) + unat n"
      using cub by (rule unat_plus_u64)
    have w: "weight_of m (Some blk) = unat n"
      using False by (simp add: weight_of_def blk_def FLAG_ALLOCATED_def)
    have o: "outstanding (s\<lparr>heap := (heap s)(m \<mapsto> blk)\<rparr>) \<le> outstanding s + unat n"
      using outstanding_upd [OF fin, of m blk] w by simp
    have v: "\<forall>h b. ((heap s)(m \<mapsto> blk)) h = Some b \<and>
        is_valid_block (s\<lparr>heap := (heap s)(m \<mapsto> blk)\<rparr>) h \<longrightarrow> blk_size b \<le> blk_capacity b"
      using szs by (auto simp add: is_valid_block_upd blk_def)
    have eq: "s1 =
        s\<lparr>heap := (heap s)(m \<mapsto> blk),
          g_stats := (if peak_usage ?st < current_usage ?st + n
            then ?st\<lparr>total_allocated := total_allocated ?st + n,
                     current_usage := current_usage ?st + n,
                     num_allocs := num_allocs ?st + 1,
                     peak_usage := current_usage ?st + n\<rparr>
            else ?st\<lparr>total_allocated := total_allocated ?st + n,
                     current_usage := current_usage ?st + n,
                     num_allocs := num_allocs ?st + 1\<rparr>)\<rparr>"
      using False al by (auto simp add: ether_alloc_def Let_def blk_def split: if_splits)
    show ?thesis
      unfolding eq
      using fin v o out bal ta cu
      by (auto simp add: alloc_inv_def not_less)
  qed
  then show "alloc_inv s1"
    and "unat (total_allocated (g_stats s1)) \<le> unat (total_allocated (g_stats s)) + unat n"
    by simp_all
qed

lemma inv_free:
  assumes inv: "alloc_inv s"
    and fr: "ether_free s p = Some s1"
  shows "alloc_inv s1"
    and "total_allocated (g_stats s1) = total_allocated (g_stats s)"
proof -
  let ?st = "g_stats s"
  let ?h = "get_header p"
  from inv have fin: "finite (dom (heap s))"
    and szs: "\<forall>h b. heap s h = Some b \<and> is_valid_block s h \<longrightarrow> blk_size b \<le> blk_capacity b"
    and out: "outstanding s \<le> unat (current_usage ?st)"
    and bal: "unat (total_freed ?st) + unat (current_usage ?st) = unat (total_allocated ?st)"
    and peak: "current_usage ?st \<le> peak_usage ?st"
    by (simp_all add: alloc_inv_def)
  have both: "alloc_inv s1 \<and> total_allocated (g_stats s1) = total_allocated ?st"
  proof (cases "p \<noteq> NULL \<and> is_valid_block s ?h")
    case False
    with inv fr show ?thesis
      by (auto simp add: ether_free_def Let_def split: if_splits)
  next
    case True
    then obtain b where b: "heap s ?h = Some b" and mg: "blk_magic b = BLOCK_MAGIC"
      by (auto simp add: is_valid_block_def split: option.splits)
    have nd: "\<not> dangling s ?h"
      using b by (simp add: dangling_def)
    have eq: "s1 =
        s\<lparr>heap := (heap s)(?h := None),
          g_stats := ?st\<lparr>total_freed := total_freed ?st + blk_size b,
                          current_usage := current_usage ?st - blk_size b,
                          num_frees := num_frees ?st + 1\<rparr>,
          sys_freed := ?h # sys_freed s\<rparr>"
      using True b mg nd fr
      by (auto simp add: ether_free_def sys_free_def Let_def freed_not_magic)
    have szcap: "unat (blk_size b) \<le> unat (blk_capacity b)"
      using szs b True by (auto simp add: word_le_nat_alt)
    have wold: "weight_of ?h (heap s ?h) = unat (blk_capacity b)"
      using True b weight_of_valid [of ?h s] by simp
    have o: "outstanding (s\<lparr>heap := (heap s)(?h := None)\<rparr>) + unat (blk_capacity b) =
        outstanding s"
      using outstanding_remove [OF fin, of ?h] wold by simp
    then have capcu: "unat (blk_capacity b) \<le> unat (current_usage ?st)"
      using out by simp
    with szcap have szcu: "blk_size b \<le> current_usage ?st"
      by (simp add: word_le_nat_alt)
    have cu: "unat (current_usage ?st - blk_size b) =
        unat (current_usage ?st) - unat (blk_size b)"
      using szcu by (simp add: unat_sub)
    have "unat (total_freed ?st) + unat (blk_size b) \<le> unat (total_allocated ?st)"
      using bal szcu by (simp add: word_le_nat_alt)
    moreover have "unat (total_allocated ?st) < 2 ^ 64"
      using unsigned_less [of "total_allocated ?st", where ?'a = nat] by simp
    ultimately have tf: "unat (total_freed ?st + blk_size b) =
        unat (total_freed ?st) + unat (blk_size b)"
      by (intro unat_plus_u64) simp
    have pk: "current_usage ?st - blk_size b \<le> peak_usage ?st"
      using peak cu by (simp add: word_le_nat_alt)
    have v: "\<forall>h b'. ((heap s)(?h := None)) h = Some b' \<and>
        is_valid_block (s\<lparr>heap := (heap s)(?h := None)\<rparr>) h \<longrightarrow>
        blk_size b' \<le> blk_capacity b'"
      using szs by (auto simp add: is_valid_block_remove)
    have o2: "outstanding (s\<lparr>heap := (heap s)(?h := None)\<rparr>) \<le>
        unat (current_usage ?st) - unat (blk_size b)"
      using o out szcap by simp
    show ?thesis
      unfolding eq
      using fin v o2 bal cu tf pk szcu
      by (auto simp add: alloc_inv_def word_le_nat_alt)
  qed
  then show "alloc_inv s1"
    and "total_allocated (g_stats s1) = total_allocated (g_stats s)"
    by simp_all
qed

lemma inv_same_headers:
  assumes inv: "alloc_inv s" and b: "heap s h = Some b"
    and same: "blk_magic b' = blk_magic b" "blk_flags b' = blk_flags b"
      "blk_capacity b' = blk_capacity b"
    and sz: "blk_size b' \<le> blk_capacity b'"
  shows "alloc_inv (s\<lparr>heap := (heap s)(h \<mapsto> b')\<rparr>)"
proof -
  from inv have fin: "finite (dom (heap s))"
    and szs: "\<forall>h b. heap s h = Some b \<and> is_valid_block s h \<longrightarrow> blk_size b \<le> blk_capacity b"
    by (simp_all add: alloc_inv_def)
  have w: "weight_of h (Some b') = weight_of h (heap s h)"
    using b same by (simp add: weight_of_def)
  have o: "outstanding (s\<lparr>heap := (heap s)(h \<mapsto> b')\<rparr>) = outstanding s"
    using outstanding_upd [OF fin, of h b'] w by simp
  have v: "\<forall>k c. ((heap s)(h \<mapsto> b')) k = Some c \<and>
        is_valid_block (s\<lparr>heap := (heap s)(h \<mapsto> b')\<rparr>) k \<longrightarrow> blk_size c \<le> blk_capacity c"
    using szs sz by (auto simp add: is_valid_block_upd)
  show ?thesis
    using inv fin v o by (simp add: alloc_inv_def)
qed

lemma inv_memcpy:
  assumes "alloc_inv s"
  shows "alloc_inv (memcpy_blocks s d p c)"
proof (cases "heap s (get_header d)")
  case None
  with assms show ?thesis by (simp add: memcpy_blocks_def)
next
  case (Some db)
  show ?thesis
  proof (cases "heap s (get_header p)")
    case None
    with assms Some show ?thesis by (simp add: memcpy_blocks_def)
  next
    case (Some pb)
    have "alloc_inv (s\<lparr>heap := (heap s)(get_header d \<mapsto>
        db\<lparr>blk_data := take (unat c) (blk_data pb) @ drop (unat c) (blk_data db)\<rparr>)\<rparr>)"
    proof (cases "is_valid_block s (get_header d)")
      case True
      with assms \<open>heap s (get_header d) = Some db\<close>
      have "blk_size db \<le> blk_capacity db" by (auto simp add: alloc_inv_def)
      then show ?thesis
        using \<open>heap s (get_header d) = Some db\<close>
        by (intro inv_same_headers [OF assms]) simp_all
    next
      case False
      from assms have fin: "finite (dom (heap s))"
        and szs: "\<forall>h b. heap s h = Some b \<and> is_valid_block s h \<longrightarrow> blk_size b \<le> blk_capacity b"
        by (simp_all add: alloc_inv_def)
      let ?b' = "db\<lparr>blk_data := take (unat c) (blk_data pb) @ drop (unat c) (blk_data db)\<rparr>"
      have w: "weight_of (get_header d) (Some ?b') = weight_of (get_header d) (heap s (get_header d))"
        using \<open>heap s (get_header d) = Some db\<close> by (simp add: weight_of_def)
      have o: "outstanding (s\<lparr>heap := (heap s)(get_header d \<mapsto> ?b')\<rparr>) = outstanding s"
        using outstanding_upd [OF fin, of "get_header d" ?b'] w by simp
      have v: "\<forall>k e. ((heap s)(get_header d \<mapsto> ?b')) k = Some e \<and>
          is_valid_block (s\<lparr>heap := (heap s)(get_header d \<mapsto> ?b')\<rparr>) k \<longrightarrow>
          blk_size e \<le> blk_capacity e"
        using szs False \<open>heap s (get_header d) = Some db\<close>
        by (auto simp add: is_valid_block_upd is_valid_block_def)
      show ?thesis
        using assms fin v o by (simp add: alloc_inv_def)
    qed
    with Some \<open>heap s (get_header d) = Some db\<close> show ?thesis
      by (simp add: memcpy_blocks_def)
  qed
qed

lemma inv_realloc:
  assumes inv: "alloc_inv s"
    and bound: "unat (total_allocated (g_stats s)) + unat n < 2 ^ 64"
    and re: "ether_realloc s p n m = Some (s1, q)"
  shows "alloc_inv s1 \<and>
         unat (total_allocated (g_stats s1)) \<le> unat (total_allocated (g_stats s)) + unat n"
proof (cases "p = NULL")
  case True
  with re have "ether_alloc s n m = Some (s1, q)"
    by (simp add: ether_realloc_def)
  from inv_alloc [OF inv bound this] show ?thesis
    by simp
next
  case pn: False
  show ?thesis
  proof (cases "n = 0")
    case True
    with pn re have "ether_free s p = Some s1"
      by (auto simp add: ether_realloc_def split: option.splits)
    from inv_free [OF inv this] show ?thesis
      by simp
  next
    case nz: False
    have nd: "\<not> dangling s (get_header p)"
      using pn nz re by (auto simp add: ether_realloc_def Let_def split: if_splits)
    show ?thesis
    proof (cases "is_valid_block s (get_header p)")
      case False
      with pn nz nd inv re show ?thesis
        by (auto simp add: ether_realloc_def Let_def)
    next
      case v: True
      then obtain ob where ob: "heap s (get_header p) = Some ob"
        by (auto simp add: is_valid_block_def split: option.splits)
      show ?thesis
      proof (cases "n \<le> blk_capacity ob")
        case True
        define b2 where "b2 = (if blk_size ob < n
            then ob\<lparr>blk_size := n,
                    blk_data := take (unat (blk_size ob)) (blk_data ob) @
                                replicate (unat (n - blk_size ob)) 0 @
                                drop (unat n) (blk_data ob)\<rparr>
            else ob\<lparr>blk_size := n\<rparr>)"
        have eq: "s1 = s\<lparr>heap := (heap s)(get_header p \<mapsto> b2)\<rparr>"
          using pn nz nd v ob True re by (auto simp add: ether_realloc_def Let_def b2_def)
        have "alloc_inv (s\<lparr>heap := (heap s)(get_header p \<mapsto> b2)\<rparr>)"
          using True by (intro inv_same_headers [OF inv ob]) (simp_all add: b2_def)
        then show ?thesis
          by (simp add: eq)
      next
        case False
        obtain s2 np where al: "ether_alloc s n m = Some (s2, np)"
          using pn nz nd v ob False re
          by (auto simp add: ether_realloc_def Let_def split: option.splits)
        note ia = inv_alloc [OF inv bound al]
        show ?thesis
        proof (cases "np = NULL")
          case True
          with pn nz nd v ob False al re have "s1 = s2"
            by (simp add: ether_realloc_def Let_def)
          with ia show ?thesis
            by simp
        next
          case np: False
          let ?s3 = "memcpy_blocks s2 np p (if blk_size ob < n then blk_size ob else n)"
          have fr: "ether_free ?s3 p = Some s1"
            using pn nz nd v ob False np al re
            by (auto simp add: ether_realloc_def Let_def split: option.splits)
          have i3: "alloc_inv ?s3"
            using ia(1) by (rule inv_memcpy)
          have "total_allocated (g_stats s1) = total_allocated (g_stats s2)"
            using inv_free(2) [OF i3 fr] by (simp add: balanced_memcpy)
          with inv_free(1) [OF i3 fr] ia(2) show ?thesis
            by simp
        qed
      qed
    qed
  qed
qed

lemma inv_reset:
  assumes "alloc_inv s" and "no_live_block s"
  shows "alloc_inv (ether_reset_stats s)"
    and "total_allocated (g_stats (ether_reset_stats s)) = 0"
proof -
  have "weight_of h (heap s h) = 0" for h
    using assms(2) by (simp add: weight_of_valid no_live_block_def)
  then have "outstanding s = 0"
    by (simp add: outstanding_def)
  with assms show "alloc_inv (ether_reset_stats s)"
    by (simp add: alloc_inv_def ether_reset_stats_def zero_stats_def)
  show "total_allocated (g_stats (ether_reset_stats s)) = 0"
    by (simp add: ether_reset_stats_def zero_stats_def)
qed

lemma inv_init: "alloc_inv init_allocator"
  by (simp add: alloc_inv_def init_allocator_def zero_stats_def outstanding_def)

lemma inv_run:
  assumes "alloc_inv s"
    and "unat (total_allocated (g_stats s)) + total_requested ops < 2 ^ 64"
    and "quiet_resets s ops"
  shows "alloc_inv (run_ops s ops)"
  using assms
proof (induction ops arbitrary: s)
  case Nil
  then show ?case by simp
next
  case (Cons x xs)
  from Cons.prems(2) have b: "unat (total_allocated (g_stats s)) + requested x < 2 ^ 64"
    by (simp add: total_requested_def)
  show ?case
  proof (cases "apply_op s x")
    case None
    with Cons.prems(1) show ?thesis by simp
  next
    case (Some s1)
    have step: "alloc_inv s1 \<and>
        unat (total_allocated (g_stats s1)) \<le>
        unat (total_allocated (g_stats s)) + requested x"
    proof (cases x)
      case (Alloc n m)
      with Some obtain q where "ether_alloc s n m = Some (s1, q)"
        by auto
      from inv_alloc [OF Cons.prems(1) _ this] Alloc b show ?thesis by simp
    next
      case (Free p)
      with Some have "ether_free s p = Some s1"
        by simp
      from inv_free [OF Cons.prems(1) this] show ?thesis by simp
    next
      case (Realloc p n m)
      with Some obtain q where "ether_realloc s p n m = Some (s1, q)"
        by auto
      from inv_realloc [OF Cons.prems(1) _ this] Realloc b show ?thesis by simp
    next
      case ResetStats
      with Cons.prems(3) have "no_live_block s" by simp
      from inv_reset [OF Cons.prems(1) this] ResetStats Some show ?thesis by auto
    qed
    then have "unat (total_allocated (g_stats s1)) + total_requested xs < 2 ^ 64"
      using Cons.prems(2) by (simp add: total_requested_def)
    with step Cons.prems(3) Some show ?thesis
      by (simp add: Cons.IH)
  qed
qed

text \<open>
  The bound on the bytes requested is needed as well, in this model at least: were
  \<open>malloc\<close> to grant two blocks of \<open>2^63\<close> and \<open>2^63 + 1\<close> bytes, \<open>current_usage\<close> would
  wrap past 0, and releasing the first block would leave it above \<open>peak_usage\<close>.
\<close>

lemma stats_after_counter_overflow:
  "quiet_resets init_allocator
     [Alloc 0x8000000000000000 4096, Alloc 0x8000000000000001 8192, Free 4120] \<and>
   current_usage (g_stats (run_ops init_allocator
     [Alloc 0x8000000000000000 4096, Alloc 0x8000000000000001 8192, Free 4120])) =
     0x8000000000000001 \<and>
   peak_usage (g_stats (run_ops init_allocator
     [Alloc 0x8000000000000000 4096, Alloc 0x8000000000000001 8192, Free 4120])) =
     0x8000000000000000"
  by (simp add: init_allocator_def ether_alloc_def ether_free_def sys_free_def dangling_def
      is_valid_block_def zero_stats_def Let_def get_user_ptr_def get_header_def
      HEADER_SIZE_def NULL_def FLAG_ALLOCATED_def freed_not_magic)

text \<open>
  Claim C1, amended. After any sequence of allocate, release, resize and
  reset operations from the initial state, \<open>total_allocated - total_freed = current_usage\<close>
  holds in 64-bit arithmetic. \<open>current_usage \<le> peak_usage\<close> holds after every such
  sequence in which the statistics are reset only while no block is live and which
  requests fewer than \<open>2^64\<close> bytes in total (so that no counter overflows).
\<close>

theorem stats_invariant_amended:
  "usage_balanced (g_stats (run_ops init_allocator ops)) \<and>
   (quiet_resets init_allocator ops \<and> total_requested ops < 2 ^ 64 \<longrightarrow>
      usage_below_peak (g_stats (run_ops init_allocator ops)))"
proof (intro conjI impI)
  show "usage_balanced (g_stats (run_ops init_allocator ops))"
    by (rule balanced_run) (simp add: usage_balanced_def init_allocator_def zero_stats_def)
next
  assume a: "quiet_resets init_allocator ops \<and> total_requested ops < 2 ^ 64"
  then have "unat (total_allocated (g_stats init_allocator)) + total_requested ops < 2 ^ 64"
    by (simp add: init_allocator_def zero_stats_def)
  from inv_run [OF inv_init this] a show "usage_below_peak (g_stats (run_ops init_allocator ops))"
    by (simp add: alloc_inv_def usage_below_peak_def)
qed

theorem stats_invariant_amended_witness:
  "quiet_resets init_allocator
     [Alloc 100 4096, Free 4120, ResetStats, Alloc 8 4096, Realloc 4120 4 0] \<and>
   total_requested [Alloc 100 4096, Free 4120, ResetStats, Alloc 8 4096, Realloc 4120 4 0]
     < 2 ^ 64 \<and>
   usage_balanced (g_stats (run_ops init_allocator
     [Alloc 100 4096, Free 4120, ResetStats, Alloc 8 4096, Realloc 4120 4 0])) \<and>
   usage_below_peak (g_stats (run_ops init_allocator
     [Alloc 100 4096, Free 4120, ResetStats, Alloc 8 4096, Realloc 4120 4 0]))"
proof -
  have q: "quiet_resets init_allocator
     [Alloc 100 4096, Free 4120, ResetStats, Alloc 8 4096, Realloc 4120 4 0]"
    by (simp add: no_live_block_def init_allocator_def ether_alloc_def ether_free_def
        ether_realloc_def sys_free_def dangling_def is_valid_block_def Let_def
        get_user_ptr_def get_header_def HEADER_SIZE_def NULL_def FLAG_ALLOCATED_def
        freed_not_magic)
  have t: "total_requested
      [Alloc 100 4096, Free 4120, ResetStats, Alloc 8 4096, Realloc 4120 4 0] < 2 ^ 64"
    by (simp add: total_requested_def)
  show ?thesis
    using q t stats_invariant_amended
      [of "[Alloc 100 4096, Free 4120, ResetStats, Alloc 8 4096, Realloc 4120 4 0]"]
    by blast
qed

section \<open>A run of the client loop\<close>

text \<open>
  The server state used above to exercise the theorems is the one the client loop
  reaches from the initial server on an ALLOC of 8 bytes followed by a WRITE of the
  bytes 1 to 8. (The loop reads a payload whenever the size field is not 0, so the
  ALLOC request is followed by 8 payload bytes, which \<open>handle_alloc\<close> ignores.)
\<close>

lemma alloc_step:
  "\<exists>a1. ether_alloc init_allocator 8 4096 = Some (a1, 4120) \<and>
     ether_write a1 4120 (Some [1, 2, 3, 4, 5, 6, 7, 8]) 8 = Some (one_block, ETHER_OK) \<and>
     handle_client_step init_server
       (client_request fair_env (request_header ETHER_CMD_ALLOC 0 8)
          (Some [0, 0, 0, 0, 0, 0, 0, 0])) =
     Some (one_handle_server\<lparr>srv_alloc := a1\<rparr>,
           wire_message LittleEndian (response_header ETHER_CMD_OK 1 0) [], True)"
proof -
  obtain a1 where al: "ether_alloc init_allocator 8 4096 = Some (a1, 4120)"
    by (simp add: ether_alloc_def NULL_def get_user_ptr_def HEADER_SIZE_def Let_def)
  have w: "ether_write a1 4120 (Some [1, 2, 3, 4, 5, 6, 7, 8]) 8 = Some (one_block, ETHER_OK)"
    using one_block_reached by (simp add: al)
  have st: "store_handle (init_server\<lparr>srv_alloc := a\<rparr>) 4120 8 =
      (one_handle_server\<lparr>srv_alloc := a\<rparr>, 1)" for a
    by (simp add: store_handle_def store_handle_from.simps init_server_def one_handle_server_def
        MAX_HANDLES_def empty_entry_def)
  have mb: "malloc_block fair_env = 4096" "malloc_payload_ok fair_env"
    by (simp_all add: fair_env_def)
  have ia: "srv_alloc init_server = init_allocator"
    by (simp add: init_server_def)
  have ha: "handle_alloc fair_env init_server (request_header ETHER_CMD_ALLOC 0 8) =
      Some (one_handle_server\<lparr>srv_alloc := a1\<rparr>,
            wire_message LittleEndian (response_header ETHER_CMD_OK 1 0) [])"
    by (simp add: handle_alloc_def request_header_simps Let_def mb al st
        send_response_no_payload fair_env_simps NULL_def ia)
  have v: "ether_msg_validate (Some (request_header ETHER_CMD_ALLOC 0 8))"
    by (rule request_valid) (simp add: ETHER_MAX_PAYLOAD_def)
  have "handle_client_step init_server
       (client_request fair_env (request_header ETHER_CMD_ALLOC 0 8)
          (Some [0, 0, 0, 0, 0, 0, 0, 0])) =
     Some (one_handle_server\<lparr>srv_alloc := a1\<rparr>,
           wire_message LittleEndian (response_header ETHER_CMD_OK 1 0) [], True)"
    by (simp add: step_request v mb request_header_simps cmd_distinct Let_def ha)
  with al w show ?thesis
    by blast
qed

lemma write_step:
  assumes "ether_write a1 4120 (Some [1, 2, 3, 4, 5, 6, 7, 8]) 8 = Some (one_block, ETHER_OK)"
  shows "handle_client_step (one_handle_server\<lparr>srv_alloc := a1\<rparr>)
     (client_request fair_env (request_header ETHER_CMD_WRITE 1 8)
        (Some [1, 2, 3, 4, 5, 6, 7, 8])) =
   Some (one_handle_server,
         wire_message LittleEndian (response_header ETHER_CMD_OK 1 0) [], True)"
proof -
  let ?sv = "one_handle_server\<lparr>srv_alloc := a1\<rparr>"
  have lk: "lookup_handle ?sv 1 = Some (4120, 8)"
    by (simp add: lookup_handle_def lookup_handle_from.simps one_handle_server_def
        MAX_HANDLES_def)
  have sv: "?sv\<lparr>srv_alloc := one_block\<rparr> = one_handle_server"
    by (simp add: one_handle_server_def)
  have sa: "srv_alloc ?sv = a1"
    by simp
  have hw: "handle_write fair_env ?sv (request_header ETHER_CMD_WRITE 1 8)
      (Some [1, 2, 3, 4, 5, 6, 7, 8]) =
      Some (one_handle_server,
            wire_message LittleEndian (response_header ETHER_CMD_OK 1 0) [])"
    unfolding handle_write_def
    by (simp add: request_header_simps Let_def lk sa assms sv
        send_response_no_payload fair_env_simps NULL_def del: ether_msg_header.simps)
  have v: "ether_msg_validate (Some (request_header ETHER_CMD_WRITE 1 8))"
    by (rule request_valid) (simp add: ETHER_MAX_PAYLOAD_def)
  have mb: "malloc_payload_ok fair_env"
    by (simp add: fair_env_def)
  show ?thesis
    by (simp add: step_request v mb request_header_simps cmd_distinct Let_def hw)
qed

lemma one_handle_server_reached:
  "handle_client init_server
     [client_request fair_env (request_header ETHER_CMD_ALLOC 0 8)
        (Some [0, 0, 0, 0, 0, 0, 0, 0]),
      client_request fair_env (request_header ETHER_CMD_WRITE 1 8)
        (Some [1, 2, 3, 4, 5, 6, 7, 8])] =
   Some (one_handle_server,
         [wire_message LittleEndian (response_header ETHER_CMD_OK 1 0) [],
          wire_message LittleEndian (response_header ETHER_CMD_OK 1 0) []])"
proof -
  obtain a1 where
    w: "ether_write a1 4120 (Some [1, 2, 3, 4, 5, 6, 7, 8]) 8 = Some (one_block, ETHER_OK)"
    and st: "handle_client_step init_server
       (client_request fair_env (request_header ETHER_CMD_ALLOC 0 8)
          (Some [0, 0, 0, 0, 0, 0, 0, 0])) =
     Some (one_handle_server\<lparr>srv_alloc := a1\<rparr>,
           wire_message LittleEndian (response_header ETHER_CMD_OK 1 0) [], True)"
    using alloc_step by blast
  show ?thesis
    by (simp add: st write_step [OF w])
qed

text \<open>
  A release through the server, and what a stale handle would do: after FREE of handle
  1 the table no longer knows the handle, so a second FREE is answered with ERROR by the
  table lookup and never reaches \<open>ether_free\<close>.
\<close>

lemma lookup_handle_from_absent:
  assumes "\<forall>k. i \<le> k \<and> k < MAX_HANDLES \<longrightarrow> \<not> ent_in_use (g_handles sv ! k)"
  shows "lookup_handle_from sv h i = None"
  using assms
proof (induction sv h i rule: lookup_handle_from.induct)
  case (1 sv h i)
  show ?case
  proof (cases "i < MAX_HANDLES")
    case True
    with "1.prems" have nu: "\<not> ent_in_use (g_handles sv ! i)"
      by simp
    have "lookup_handle_from sv h (i + 1) = None"
      using "1.IH" [OF True] nu "1.prems" by simp
    then show ?thesis
      using True nu by (subst lookup_handle_from.simps) simp
  next
    case False
    then show ?thesis
      by (subst lookup_handle_from.simps) simp
  qed
qed

lemma server_free_twice:
  "handle_client one_handle_server
     [client_request fair_env (request_header ETHER_CMD_FREE 1 0) None,
      client_request fair_env (request_header ETHER_CMD_FREE 1 0) None] =
   (case ether_free one_block 4120 of
      None \<Rightarrow> None
    | Some a1 \<Rightarrow>
        Some (fst (remove_handle (one_handle_server\<lparr>srv_alloc := a1\<rparr>) 1),
              [wire_message LittleEndian (response_header ETHER_CMD_OK 1 0) [],
               wire_message LittleEndian (response_header ETHER_CMD_ERROR 1 0) []]))"
proof -
  obtain a1 where fr: "ether_free one_block 4120 = Some a1"
    using ether_free_releases [OF one_block_live] by blast
  let ?sv = "fst (remove_handle (one_handle_server\<lparr>srv_alloc := a1\<rparr>) 1)"
  have v: "ether_msg_validate (Some (request_header ETHER_CMD_FREE 1 0))"
    by (rule request_valid) (simp add: ETHER_MAX_PAYLOAD_def)
  have h1: "handle_free fair_env one_handle_server (request_header ETHER_CMD_FREE 1 0) =
      Some (?sv, wire_message LittleEndian (response_header ETHER_CMD_OK 1 0) [])"
    by (simp add: handle_free_def request_header_simps one_handle_lookup one_handle_alloc fr
        Let_def NULL_def send_response_no_payload fair_env_simps)
  have gh: "g_handles ?sv =
      (replicate MAX_HANDLES empty_entry)
        [0 := \<lparr>ent_handle = 1, ent_ptr = NULL, ent_size = 8, ent_in_use = False\<rparr>]"
    by (subst remove_handle_def, subst remove_handle_from.simps)
      (simp add: one_handle_server_def MAX_HANDLES_def)
  have "\<not> ent_in_use (g_handles ?sv ! k)" if "k < MAX_HANDLES" for k
    using that by (cases "k = 0") (simp_all add: gh empty_entry_def)
  then have lk: "lookup_handle ?sv 1 = None"
    unfolding lookup_handle_def by (intro lookup_handle_from_absent) simp
  have h2: "handle_free fair_env ?sv (request_header ETHER_CMD_FREE 1 0) =
      Some (?sv, wire_message LittleEndian (response_header ETHER_CMD_ERROR 1 0) [])"
    by (simp add: handle_free_def request_header_simps lk Let_def
        send_response_no_payload fair_env_simps)
  show ?thesis
    by (simp add: fr step_request v request_header_simps cmd_distinct h1 h2)
qed

section \<open>Well-formed blocks in reachable states\<close>

text \<open>
  The theorems above speak of live regions, whose blocks satisfy the data model's
  invariant. Every state that allocate, release, resize and reset operations reach from
  the initial one keeps that invariant for all its blocks, so there every non-null
  pointer whose header passes the validity check is a live region.
\<close>

lemma heap_wf_upd:
  assumes "heap_wf s" "block_wf b"
  shows "heap_wf (s\<lparr>heap := (heap s)(h \<mapsto> b)\<rparr>)"
  using assms by (simp add: heap_wf_def)

lemma heap_wf_remove:
  assumes "heap_wf s"
  shows "heap_wf (s\<lparr>heap := (heap s)(h := None)\<rparr>)"
  using assms by (simp add: heap_wf_def)

lemma heap_wf_fields [simp]:
  "heap_wf (s\<lparr>g_stats := st\<rparr>) = heap_wf s"
  "heap_wf (s\<lparr>sys_freed := fl\<rparr>) = heap_wf s"
  "heap_wf (s\<lparr>stderr_log := lg\<rparr>) = heap_wf s"
  by (simp_all add: heap_wf_def)

lemma heap_wf_alloc:
  assumes "heap_wf s" "ether_alloc s n m = Some (s1, q)"
  shows "heap_wf s1"
  using assms
  by (auto simp add: ether_alloc_def Let_def heap_wf_def block_wf_def split: if_splits)

lemma heap_wf_free:
  assumes "heap_wf s" "ether_free s p = Some s1"
  shows "heap_wf s1"
  using assms
  by (auto simp add: ether_free_def sys_free_def Let_def heap_wf_def
      split: if_splits option.splits)

lemma heap_wf_memcpy:
  assumes "heap_wf s"
    and "heap s (get_header p) = Some ob" "unat c \<le> length (blk_data ob)"
    and "heap s (get_header d) = Some db" "unat c \<le> length (blk_data db)"
  shows "heap_wf (memcpy_blocks s d p c)"
proof -
  from assms(1,4) have "block_wf db"
    by (simp add: heap_wf_def)
  then have "block_wf (db\<lparr>blk_data := take (unat c) (blk_data ob) @
      drop (unat c) (blk_data db)\<rparr>)"
    using assms(3,5) by (simp add: block_wf_def)
  with assms(1,2,4) show ?thesis
    by (simp add: memcpy_blocks_def heap_wf_upd)
qed

lemma heap_wf_realloc:
  assumes wf: "heap_wf s" and re: "ether_realloc s p n m = Some (s1, q)"
  shows "heap_wf s1"
proof (cases "p = NULL")
  case True
  with re have "ether_alloc s n m = Some (s1, q)"
    by (simp add: ether_realloc_def)
  from heap_wf_alloc [OF wf this] show ?thesis .
next
  case pn: False
  show ?thesis
  proof (cases "n = 0")
    case True
    with pn re have "ether_free s p = Some s1"
      by (auto simp add: ether_realloc_def split: option.splits)
    from heap_wf_free [OF wf this] show ?thesis .
  next
    case nz: False
    have nd: "\<not> dangling s (get_header p)"
      using pn nz re by (auto simp add: ether_realloc_def Let_def split: if_splits)
    show ?thesis
    proof (cases "is_valid_block s (get_header p)")
      case False
      with pn nz nd wf re show ?thesis
        by (auto simp add: ether_realloc_def Let_def)
    next
      case v: True
      then obtain ob where ob: "heap s (get_header p) = Some ob"
        by (auto simp add: is_valid_block_def split: option.splits)
      with wf have bwf: "block_wf ob"
        by (simp add: heap_wf_def)
      show ?thesis
      proof (cases "n \<le> blk_capacity ob")
        case True
        define b2 where "b2 = (if blk_size ob < n
            then ob\<lparr>blk_size := n,
                    blk_data := take (unat (blk_size ob)) (blk_data ob) @
                                replicate (unat (n - blk_size ob)) 0 @
                                drop (unat n) (blk_data ob)\<rparr>
            else ob\<lparr>blk_size := n\<rparr>)"
        have eq: "s1 = s\<lparr>heap := (heap s)(get_header p \<mapsto> b2)\<rparr>"
          using pn nz nd v ob True re by (auto simp add: ether_realloc_def Let_def b2_def)
        have "block_wf b2"
          using bwf True
          by (auto simp add: b2_def block_wf_def word_le_nat_alt word_less_nat_alt unat_sub)
        then show ?thesis
          unfolding eq by (rule heap_wf_upd [OF wf])
      next
        case big: False
        obtain s2 np where al: "ether_alloc s n m = Some (s2, np)"
          using pn nz nd v ob big re
          by (auto simp add: ether_realloc_def Let_def split: option.splits)
        have w2: "heap_wf s2"
          by (rule heap_wf_alloc [OF wf al])
        show ?thesis
        proof (cases "np = NULL")
          case True
          with pn nz nd v ob big al re have "s1 = s2"
            by (simp add: ether_realloc_def Let_def)
          with w2 show ?thesis
            by simp
        next
          case np: False
          have lt: "blk_size ob < n"
            using big bwf by (auto simp add: block_wf_def)
          let ?s3 = "memcpy_blocks s2 np p (blk_size ob)"
          have fr: "ether_free ?s3 p = Some s1"
            using pn nz nd v ob big np al re lt
            by (auto simp add: ether_realloc_def Let_def split: option.splits)
          have m: "m \<noteq> NULL" "np = get_user_ptr m"
            and dst: "heap s2 m = Some \<lparr>blk_magic = BLOCK_MAGIC, blk_flags = FLAG_ALLOCATED,
              blk_size = n, blk_capacity = n, blk_data = replicate (unat n) 0\<rparr>"
            and oth: "\<forall>h. h \<noteq> m \<longrightarrow> heap s2 h = heap s h"
            using al nz np by (auto simp add: ether_alloc_def Let_def split: if_splits)
          have d: "heap s2 (get_header np) =
              Some \<lparr>blk_magic = BLOCK_MAGIC, blk_flags = FLAG_ALLOCATED,
                blk_size = n, blk_capacity = n, blk_data = replicate (unat n) 0\<rparr>"
            using m dst by simp
          have w3: "heap_wf ?s3"
          proof (cases "m = get_header p")
            case True
            with dst have src: "heap s2 (get_header p) =
              Some \<lparr>blk_magic = BLOCK_MAGIC, blk_flags = FLAG_ALLOCATED,
                blk_size = n, blk_capacity = n, blk_data = replicate (unat n) 0\<rparr>"
              by simp
            show ?thesis
              using lt by (intro heap_wf_memcpy [OF w2 src _ d])
                (simp_all add: word_less_nat_alt)
          next
            case False
            with oth ob have src: "heap s2 (get_header p) = Some ob"
              by simp
            have "unat (blk_size ob) \<le> length (blk_data ob)"
              using bwf by (simp add: block_wf_def word_le_nat_alt)
            then show ?thesis
              using lt by (intro heap_wf_memcpy [OF w2 src _ d])
                (simp_all add: word_less_nat_alt)
          qed
          from heap_wf_free [OF w3 fr] show ?thesis .
        qed
      qed
    qed
  qed
qed

lemma heap_wf_run: "heap_wf s \<Longrightarrow> heap_wf (run_ops s ops)"
proof (induction ops arbitrary: s)
  case Nil
  then show ?case by simp
next
  case (Cons x xs)
  show ?case
  proof (cases "apply_op s x")
    case None
    with Cons.prems show ?thesis by simp
  next
    case (Some s1)
    have "heap_wf s1"
    proof (cases x)
      case (Alloc n m)
      with Some obtain q where "ether_alloc s n m = Some (s1, q)"
        by auto
      from heap_wf_alloc [OF Cons.prems this] show ?thesis .
    next
      case (Free p)
      with Some have "ether_free s p = Some s1"
        by simp
      from heap_wf_free [OF Cons.prems this] show ?thesis .
    next
      case (Realloc p n m)
      with Some obtain q where "ether_realloc s p n m = Some (s1, q)"
        by auto
      from heap_wf_realloc [OF Cons.prems this] show ?thesis .
    next
      case ResetStats
      with Some Cons.prems show ?thesis
        by (auto simp add: heap_wf_def ether_reset_stats_def)
    qed
    then show ?thesis
      using Cons.IH Some by simp
  qed
qed

lemma reachable_valid_is_live:
  assumes "p \<noteq> NULL" and "is_valid_block (run_ops init_allocator ops) (get_header p)"
  shows "\<exists>b. live_region (run_ops init_allocator ops) p b"
proof -
  have "heap_wf init_allocator"
    by (simp add: heap_wf_def init_allocator_def)
  then have "heap_wf (run_ops init_allocator ops)"
    by (rule heap_wf_run)
  with assms show ?thesis
    by (auto simp add: live_region_def heap_wf_def is_valid_block_def split: option.splits)
qed

end
